theory Spec2Isabelle
  imports Complex_Main "HOL-Library.Word"
begin

section \<open>JavaScript strings\<close>

text \<open>
  A JavaScript string is a sequence of 16-bit code units. The regular expressions of the
  label code carry no \<open>u\<close> flag, so every string operation below works on code units.
  \<open>js\<close> turns an ASCII literal into such a string.
\<close>

type_synonym jschar = "16 word"
type_synonym jsstring = "jschar list"

definition js :: "string \<Rightarrow> jsstring" where
  "js s = map of_char s"

definition LBRACE :: jschar where "LBRACE = 0x7B"
definition RBRACE :: jschar where "RBRACE = 0x7D"
definition DOLLAR :: jschar where "DOLLAR = 0x24"
definition AMPERSAND :: jschar where "AMPERSAND = 0x26"
definition BACKTICK :: jschar where "BACKTICK = 0x60"
definition QUOTE :: jschar where "QUOTE = 0x27"
definition DOT :: jschar where "DOT = 0x2E"
definition SPACE :: jschar where "SPACE = 0x20"
definition HYPHEN :: jschar where "HYPHEN = 0x2D"

lemmas jschar_defs =
  LBRACE_def RBRACE_def DOLLAR_def AMPERSAND_def BACKTICK_def QUOTE_def DOT_def SPACE_def
  HYPHEN_def

text \<open>
  The characters \<open>.\<close> does not match in a regular expression without the \<open>s\<close> flag:
  LF, CR, U+2028 and U+2029.
\<close>

definition is_line_terminator :: "jschar \<Rightarrow> bool" where
  "is_line_terminator c \<longleftrightarrow> c = 0x0A \<or> c = 0x0D \<or> c = 0x2028 \<or> c = 0x2029"

text \<open>
  \<open>\s\<close> and \<open>String.prototype.trim\<close> use the same set: the WhiteSpace code points
  TAB, VT, FF, SP, NBSP, ZWNBSP and the Unicode space separators, and the line terminators.
\<close>

definition is_whitespace :: "jschar \<Rightarrow> bool" where
  "is_whitespace c \<longleftrightarrow>
     c = 0x09 \<or> c = 0x0A \<or> c = 0x0B \<or> c = 0x0C \<or> c = 0x0D \<or> c = 0x20 \<or>
     c = 0xA0 \<or> c = 0x1680 \<or> (0x2000 \<le> c \<and> c \<le> 0x200A) \<or>
     c = 0x2028 \<or> c = 0x2029 \<or> c = 0x202F \<or> c = 0x205F \<or> c = 0x3000 \<or>
     c = 0xFEFF"

text \<open>
  \<open>s.split(sep)\<close> for a separator of one character: never empty; \<open>"".split(".")\<close>
  is \<open>[""]\<close>.
\<close>

fun split_on :: "jschar \<Rightarrow> jsstring \<Rightarrow> jsstring list" where
  "split_on sep [] = [[]]"
| "split_on sep (c # cs) =
     (if c = sep then [] # split_on sep cs
      else (case split_on sep cs of p # ps \<Rightarrow> (c # p) # ps | [] \<Rightarrow> [[c]]))"

text \<open>\<open>parts.join(".")\<close>.\<close>

fun join_dot :: "jsstring list \<Rightarrow> jsstring" where
  "join_dot [] = []"
| "join_dot [p] = p"
| "join_dot (p # q # ps) = p @ DOT # join_dot (q # ps)"

text \<open>
  \<open>s.indexOf(pattern)\<close>, returned as the text before and after the first occurrence.
\<close>

fun find_first :: "jsstring \<Rightarrow> jsstring \<Rightarrow> (jsstring \<times> jsstring) option" where
  "find_first pat [] = (if pat = [] then Some ([], []) else None)"
| "find_first pat (c # cs) =
     (if take (length pat) (c # cs) = pat then Some ([], drop (length pat) (c # cs))
      else map_option (\<lambda>(bef, aft). (c # bef, aft)) (find_first pat cs))"

text \<open>
  GetSubstitution of ECMA-262 for a string pattern (no captures, no named groups): in the
  replacement text \<open>$$\<close> stands for a dollar sign, \<open>$&\<close> for the matched text,
  \<open>$`\<close> for the text before the match and \<open>$'\<close> for the text after it; a dollar
  sign before anything else (a digit included, since there is no capture) stands for
  itself.
\<close>

fun get_substitution :: "jsstring \<Rightarrow> jsstring \<Rightarrow> jsstring \<Rightarrow> jsstring \<Rightarrow> jsstring" where
  "get_substitution matched bef aft [] = []"
| "get_substitution matched bef aft [c] = [c]"
| "get_substitution matched bef aft (c # d # rest) =
     (if c = DOLLAR then
        (if d = DOLLAR then DOLLAR # get_substitution matched bef aft rest
         else if d = AMPERSAND then matched @ get_substitution matched bef aft rest
         else if d = BACKTICK then bef @ get_substitution matched bef aft rest
         else if d = QUOTE then aft @ get_substitution matched bef aft rest
         else c # get_substitution matched bef aft (d # rest))
      else c # get_substitution matched bef aft (d # rest))"

text \<open>
  \<open>s.replace(pattern, replacement)\<close> with two strings: only the first occurrence of
  the pattern is replaced, and the replacement text goes through GetSubstitution.
\<close>

definition js_replace :: "jsstring \<Rightarrow> jsstring \<Rightarrow> jsstring \<Rightarrow> jsstring" where
  "js_replace s pat replacement =
     (case find_first pat s of
        None \<Rightarrow> s
      | Some (bef, aft) \<Rightarrow>
          bef @ get_substitution pat bef aft replacement @ aft)"

section \<open>Records and tag resolution\<close>

text \<open>
  A record (spool, filament, vendor) is plain JSON data: a tree of objects with own
  string-keyed properties and scalar leaves. Numbers stay abstract (\<open>'n\<close>); their
  conversion to text and \<open>JSON.parse\<close> are JavaScript built-ins and enter as the
  parameters \<open>nstr\<close> and \<open>jparse\<close>. Property reads on scalars and inherited
  properties are outside this data model: \<open>js_get\<close> reads own properties of objects.
\<close>

datatype 'n jsval =
    VUndefined
  | VNull
  | VBool bool
  | VNum 'n
  | VStr jsstring
  | VObj "(jsstring \<times> 'n jsval) list"

datatype jserror = TypeError | SyntaxError

type_synonym 'n GenericObject = "(jsstring \<times> 'n jsval) list"

definition js_get :: "'n GenericObject \<Rightarrow> jsstring \<Rightarrow> 'n jsval" where
  "js_get obj k = (case map_of obj k of None \<Rightarrow> VUndefined | Some v \<Rightarrow> v)"

text \<open>\<open>String(v)\<close>, which is also what \<open>+\<close> does to a value next to a string.\<close>

fun js_String :: "('n \<Rightarrow> jsstring) \<Rightarrow> 'n jsval \<Rightarrow> jsstring" where
  "js_String nstr VUndefined = js ''undefined''"
| "js_String nstr VNull = js ''null''"
| "js_String nstr (VBool b) = (if b then js ''true'' else js ''false'')"
| "js_String nstr (VNum n) = nstr n"
| "js_String nstr (VStr s) = s"
| "js_String nstr (VObj obj) = js ''[object Object]''"

text \<open>\<open>v ?? "?"\<close>\<close>

fun or_sentinel :: "'n jsval \<Rightarrow> 'n jsval" where
  "or_sentinel VUndefined = VStr (js ''?'')"
| "or_sentinel VNull = VStr (js ''?'')"
| "or_sentinel v = v"

lemma map_of_size_less:
  "map_of obj k = Some v \<Longrightarrow> size v < Suc (size_list (size_prod (\<lambda>_. 0) size) obj)"
  by (induction obj) (auto split: if_splits)

text \<open>
  \<open>getTagValue\<close>. \<open>obj.extra[tagParts[1]]\<close> throws a TypeError when \<open>obj.extra\<close> is
  undefined or null; a missing second part makes the key the text \<open>undefined\<close>.
\<close>

function getTagValue ::
  "(jsstring \<Rightarrow> jserror + 'n jsval) \<Rightarrow> ('n \<Rightarrow> jsstring) \<Rightarrow> jsstring \<Rightarrow> 'n GenericObject
    \<Rightarrow> jserror + 'n jsval" where
  "getTagValue jparse nstr tag obj =
     (let tagParts = split_on DOT tag in
      if hd tagParts = js ''extra'' then
        (case js_get obj (js ''extra'') of
           VUndefined \<Rightarrow> Inl TypeError
         | VNull \<Rightarrow> Inl TypeError
         | VObj extra \<Rightarrow>
             (case js_get extra (case tl tagParts of [] \<Rightarrow> js ''undefined'' | k # _ \<Rightarrow> k) of
                VUndefined \<Rightarrow> Inr (VStr (js ''?''))
              | extraValue \<Rightarrow> jparse (js_String nstr extraValue))
         | _ \<Rightarrow> Inr (VStr (js ''?'')))
      else
        (case or_sentinel (js_get obj (hd tagParts)) of
           VObj value \<Rightarrow> getTagValue jparse nstr (join_dot (tl tagParts)) value
         | value \<Rightarrow> Inr value))"
  by pat_completeness auto
termination
proof (relation "measure (\<lambda>(jparse, nstr, tag, obj). size_list (size_prod (\<lambda>_. 0) size) obj)")
  show "wf (measure (\<lambda>(jparse, nstr, tag, obj :: 'n GenericObject).
    size_list (size_prod (\<lambda>_. 0) size) obj))"
    by simp
next
  fix jparse :: "jsstring \<Rightarrow> jserror + 'n jsval" and nstr :: "'n \<Rightarrow> jsstring"
    and tag :: jsstring and obj :: "'n GenericObject" and tagParts and child :: "'n GenericObject"
  assume "tagParts = split_on DOT tag" and "hd tagParts \<noteq> js ''extra''"
    and v: "or_sentinel (js_get obj (hd tagParts)) = VObj child"
  have "js_get obj (hd tagParts) = VObj child"
    using v by (cases "js_get obj (hd tagParts)") auto
  then have "map_of obj (hd tagParts) = Some (VObj child)"
    by (auto simp: js_get_def split: option.splits)
  from map_of_size_less[OF this]
  show "((jparse, nstr, join_dot (tl tagParts), child), (jparse, nstr, tag, obj))
      \<in> measure (\<lambda>(jparse, nstr, tag, obj). size_list (size_prod (\<lambda>_. 0) size) obj)"
    by simp
qed

declare getTagValue.simps [simp del]

section \<open>The template engine\<close>

text \<open>
  The span expression \<open>/{(?:[^}{]|{[^}{]*})*}/gs\<close>. After the opening brace the next
  character decides the alternative: any character but a brace is consumed, an opening
  brace starts the inner group \<open>{[^}{]*}\<close>, a closing brace ends the match. An attempt
  that meets a second opening brace inside the inner group, or the end of the text, fails,
  and no shorter iteration of the star can end on a closing brace, so backtracking finds
  nothing else. \<open>scan_span inner s\<close> reads \<open>s\<close> after the opening brace (\<open>inner\<close>:
  inside the inner group) and returns the rest of the match and the text after it.
\<close>

fun scan_span :: "bool \<Rightarrow> jsstring \<Rightarrow> (jsstring \<times> jsstring) option" where
  "scan_span inner [] = None"
| "scan_span False (c # cs) =
     (if c = RBRACE then Some ([c], cs)
      else map_option (\<lambda>(m, r). (c # m, r)) (scan_span (c = LBRACE) cs))"
| "scan_span True (c # cs) =
     (if c = LBRACE then None
      else map_option (\<lambda>(m, r). (c # m, r)) (scan_span (c \<noteq> RBRACE) cs))"

lemma scan_span_append: "scan_span inner s = Some (m, r) \<Longrightarrow> s = m @ r"
proof (induction inner s arbitrary: m rule: scan_span.induct)
  case (1 inner)
  then show ?case by simp
next
  case (2 c cs)
  then show ?case by (auto split: if_splits)
next
  case (3 c cs)
  then show ?case by (auto split: if_splits)
qed

lemma scan_span_shorter: "scan_span inner s = Some (m, r) \<Longrightarrow> length r < Suc (length s)"
  by (drule scan_span_append) simp

text \<open>
  \<open>template.matchAll(...)\<close>: the matches from left to right; the search resumes after
  a match, and one character further on where no match starts.
\<close>

function matchAll_spans :: "jsstring \<Rightarrow> jsstring list" where
  "matchAll_spans [] = []"
| "matchAll_spans (c # cs) =
     (if c = LBRACE then
        (case scan_span False cs of
           Some (m, r) \<Rightarrow> (c # m) # matchAll_spans r
         | None \<Rightarrow> matchAll_spans cs)
      else matchAll_spans cs)"
  by pat_completeness auto
termination
  by (relation "measure length") (auto dest: scan_span_shorter)

text \<open>\<open>(match[0].match(/{/g) || []).length\<close>\<close>

definition count_open :: "jsstring \<Rightarrow> nat" where
  "count_open m = length (filter (\<lambda>c. c = LBRACE) m)"

text \<open>\<open>match[0].replace(/[{}]/g, "")\<close>\<close>

definition strip_braces :: "jsstring \<Rightarrow> jsstring" where
  "strip_braces m = filter (\<lambda>c. c \<noteq> LBRACE \<and> c \<noteq> RBRACE) m"

text \<open>
  The shape expression \<open>/{(.*?){(.*?)}(.*?)}/\<close>, as a backtracking matcher.
  \<open>lazy_dots c k s\<close> matches \<open>(.*?)c\<close> followed by the continuation \<open>k\<close>: it tries
  the shortest group first and lengthens it one character at a time, never over a line
  terminator. \<open>structure_match\<close> tries every start position from the left.
\<close>

fun lazy_dots :: "jschar \<Rightarrow> (jsstring \<Rightarrow> 'a option) \<Rightarrow> jsstring \<Rightarrow> (jsstring \<times> 'a) option" where
  "lazy_dots c k [] = None"
| "lazy_dots c k (x # xs) =
     (case (if x = c then k xs else None) of
        Some r \<Rightarrow> Some ([], r)
      | None \<Rightarrow>
          (if is_line_terminator x then None
           else map_option (\<lambda>(g, r). (x # g, r)) (lazy_dots c k xs)))"

definition structure_at :: "jsstring \<Rightarrow> (jsstring \<times> jsstring \<times> jsstring) option" where
  "structure_at s =
     (case s of
        [] \<Rightarrow> None
      | x # xs \<Rightarrow>
          (if x = LBRACE then
             map_option (\<lambda>(g1, g2, g3, u). (g1, g2, g3))
               (lazy_dots LBRACE (lazy_dots RBRACE (lazy_dots RBRACE (\<lambda>rest. Some ()))) xs)
           else None))"

fun structure_match :: "jsstring \<Rightarrow> (jsstring \<times> jsstring \<times> jsstring) option" where
  "structure_match [] = None"
| "structure_match (x # xs) =
     (case structure_at (x # xs) of
        Some g \<Rightarrow> Some g
      | None \<Rightarrow> structure_match xs)"

text \<open>
  The body of the \<open>forEach\<close> in \<open>renderTemplateText\<close>: one match, applied to the text
  rendered so far. An exception of \<open>getTagValue\<close> leaves the function.
\<close>

definition render_step ::
  "(jsstring \<Rightarrow> jserror + 'n jsval) \<Rightarrow> ('n \<Rightarrow> jsstring) \<Rightarrow> 'n GenericObject \<Rightarrow> jsstring
    \<Rightarrow> jsstring \<Rightarrow> jserror + jsstring" where
  "render_step jparse nstr obj renderedText m =
     (if count_open m = 1 then
        (case getTagValue jparse nstr (strip_braces m) obj of
           Inl e \<Rightarrow> Inl e
         | Inr tagValue \<Rightarrow> Inr (js_replace renderedText m (js_String nstr tagValue)))
      else if count_open m = 2 then
        (case structure_match m of
           None \<Rightarrow> Inr renderedText
         | Some (prefix, tag, suffix) \<Rightarrow>
             (case getTagValue jparse nstr tag obj of
                Inl e \<Rightarrow> Inl e
              | Inr tagValue \<Rightarrow>
                  (if tagValue = VStr (js ''?'') then Inr (js_replace renderedText m [])
                   else Inr (js_replace renderedText m
                              (prefix @ js_String nstr tagValue @ suffix)))))
      else Inr renderedText)"

fun render_loop ::
  "(jsstring \<Rightarrow> jserror + 'n jsval) \<Rightarrow> ('n \<Rightarrow> jsstring) \<Rightarrow> 'n GenericObject \<Rightarrow> jsstring
    \<Rightarrow> jsstring list \<Rightarrow> jserror + jsstring" where
  "render_loop jparse nstr obj renderedText [] = Inr renderedText"
| "render_loop jparse nstr obj renderedText (m # ms) =
     (case render_step jparse nstr obj renderedText m of
        Inl e \<Rightarrow> Inl e
      | Inr renderedText' \<Rightarrow> render_loop jparse nstr obj renderedText' ms)"

definition renderTemplateText ::
  "(jsstring \<Rightarrow> jserror + 'n jsval) \<Rightarrow> ('n \<Rightarrow> jsstring) \<Rightarrow> jsstring \<Rightarrow> 'n GenericObject
    \<Rightarrow> jserror + jsstring" where
  "renderTemplateText jparse nstr template obj =
     render_loop jparse nstr obj template (matchAll_spans template)"


subsection \<open>Evaluation on concrete templates\<close>

lemmas render_eval =
  renderTemplateText_def render_step_def js_def jschar_defs count_open_def strip_braces_def
  getTagValue.simps js_get_def js_replace_def structure_at_def is_line_terminator_def

text \<open>The two scenarios of the template language: plain tags, and a block whose tag is missing.\<close>

lemma scenario_plain_tags:
  "renderTemplateText jparse nstr (js ''{material} ({article_number})'')
     [(js ''material'', VStr (js ''PLA'')), (js ''article_number'', VStr (js ''AB-1''))]
   = Inr (js ''PLA (AB-1)'')"
  by (simp add: render_eval)

lemma scenario_missing_block:
  "renderTemplateText jparse nstr (js ''{ET: {settings_extruder_temp} C}'')
     [(js ''settings_extruder_temp'', VUndefined)]
   = Inr []"
  by (simp add: render_eval)

subsection \<open>Optional blocks\<close>

text \<open>
  An optional block \<open>{prefix{tag}suffix}\<close>; its three parts hold no brace, and the shape
  expression needs them free of line terminators.
\<close>

definition optionalBlock :: "jsstring \<Rightarrow> jsstring \<Rightarrow> jsstring \<Rightarrow> jsstring" where
  "optionalBlock p t s = LBRACE # p @ LBRACE # t @ RBRACE # s @ [RBRACE]"

definition brace_free :: "jsstring \<Rightarrow> bool" where
  "brace_free s \<longleftrightarrow> list_all (\<lambda>c. c \<noteq> LBRACE \<and> c \<noteq> RBRACE) s"

definition one_line :: "jsstring \<Rightarrow> bool" where
  "one_line s \<longleftrightarrow> list_all (\<lambda>c. \<not> is_line_terminator c) s"

lemma brace_neq [simp]: "LBRACE \<noteq> RBRACE" "RBRACE \<noteq> LBRACE"
  by (simp_all add: LBRACE_def RBRACE_def)

lemma brace_one_line [simp]: "\<not> is_line_terminator LBRACE" "\<not> is_line_terminator RBRACE"
  by (simp_all add: LBRACE_def RBRACE_def is_line_terminator_def)

lemma scan_span_inner_text:
  "brace_free t \<Longrightarrow>
   scan_span True (t @ RBRACE # rest) =
     map_option (\<lambda>(m, r). (t @ RBRACE # m, r)) (scan_span False rest)"
proof (induction t)
  case Nil
  show ?case by simp
next
  case (Cons c t)
  then have "c \<noteq> LBRACE" "c \<noteq> RBRACE" "brace_free t"
    by (simp_all add: brace_free_def)
  with Cons.IH show ?case
    by (simp add: option.map_comp comp_def case_prod_unfold)
qed

lemma scan_span_outer_text:
  "brace_free p \<Longrightarrow>
   scan_span False (p @ rest) = map_option (\<lambda>(m, r). (p @ m, r)) (scan_span False rest)"
proof (induction p)
  case Nil
  show ?case by (simp add: option.map_ident)
next
  case (Cons c p)
  then have "c \<noteq> LBRACE" "c \<noteq> RBRACE" "brace_free p"
    by (simp_all add: brace_free_def)
  with Cons.IH show ?case
    by (simp add: option.map_comp comp_def case_prod_unfold)
qed

lemma scan_span_block:
  assumes "brace_free p" "brace_free t" "brace_free s"
  shows "scan_span False (p @ LBRACE # t @ RBRACE # s @ RBRACE # rest)
    = Some (p @ LBRACE # t @ RBRACE # s @ [RBRACE], rest)"
proof -
  have "scan_span False (s @ RBRACE # rest) = Some (s @ [RBRACE], rest)"
    using assms(3) by (simp add: scan_span_outer_text)
  then have "scan_span True (t @ RBRACE # s @ RBRACE # rest)
      = Some (t @ RBRACE # s @ [RBRACE], rest)"
    using assms(2) by (simp add: scan_span_inner_text)
  then show ?thesis
    using assms(1) by (simp add: scan_span_outer_text)
qed

lemma matchAll_spans_no_open: "LBRACE \<notin> set s \<Longrightarrow> matchAll_spans s = []"
  by (induction s) auto

lemma matchAll_spans_skip: "LBRACE \<notin> set pre \<Longrightarrow> matchAll_spans (pre @ x) = matchAll_spans x"
  by (induction pre) auto

lemma matchAll_spans_block:
  assumes "brace_free p" "brace_free t" "brace_free s"
    and "LBRACE \<notin> set pre" "LBRACE \<notin> set post"
  shows "matchAll_spans (pre @ optionalBlock p t s @ post) = [optionalBlock p t s]"
  using assms scan_span_block[OF assms(1-3), of post]
  by (simp add: matchAll_spans_skip matchAll_spans_no_open optionalBlock_def)


lemma count_open_block:
  assumes "brace_free p" "brace_free t" "brace_free s"
  shows "count_open (optionalBlock p t s) = 2"
proof -
  have "filter (\<lambda>c. c = LBRACE) x = []" if "brace_free x" for x
    using that by (induction x) (auto simp: brace_free_def)
  with assms show ?thesis
    by (simp add: count_open_def optionalBlock_def)
qed

lemma lazy_dots_first:
  "c \<notin> set g \<Longrightarrow> one_line g \<Longrightarrow> k rest = Some r \<Longrightarrow> lazy_dots c k (g @ c # rest) = Some (g, r)"
  by (induction g) (auto simp: one_line_def)

lemma structure_match_block:
  assumes "brace_free p" "brace_free t" "brace_free s"
    and "one_line p" "one_line t" "one_line s"
  shows "structure_match (optionalBlock p t s) = Some (p, t, s)"
proof -
  have nb: "LBRACE \<notin> set p" "RBRACE \<notin> set t" "RBRACE \<notin> set s"
    using assms(1-3) by (auto simp: brace_free_def list_all_iff)
  have 3: "lazy_dots RBRACE (\<lambda>rest. Some ()) (s @ [RBRACE]) = Some (s, ())"
    using nb(3) assms(6) by (simp add: lazy_dots_first)
  have 2: "lazy_dots RBRACE (lazy_dots RBRACE (\<lambda>rest. Some ())) (t @ RBRACE # s @ [RBRACE])
      = Some (t, s, ())"
    using nb(2) assms(5) 3 by (simp add: lazy_dots_first)
  have "lazy_dots LBRACE (lazy_dots RBRACE (lazy_dots RBRACE (\<lambda>rest. Some ())))
      (p @ LBRACE # t @ RBRACE # s @ [RBRACE]) = Some (p, t, s, ())"
    using nb(1) assms(4) 2 by (simp add: lazy_dots_first)
  then show ?thesis
    by (simp add: optionalBlock_def structure_at_def)
qed

lemma find_first_here:
  "LBRACE \<notin> set pre \<Longrightarrow> find_first (LBRACE # m) (pre @ LBRACE # m @ post) = Some (pre, post)"
  by (induction pre) auto


text \<open>A replacement text without a dollar sign is inserted as it is.\<close>

lemma get_substitution_plain:
  "DOLLAR \<notin> set replacement \<Longrightarrow> get_substitution matched bef aft replacement = replacement"
  by (induction matched bef aft replacement rule: get_substitution.induct) auto

lemma js_replace_plain:
  "LBRACE \<notin> set pre \<Longrightarrow> DOLLAR \<notin> set replacement \<Longrightarrow>
   js_replace (pre @ LBRACE # m @ post) (LBRACE # m) replacement = pre @ replacement @ post"
  by (simp add: js_replace_def find_first_here get_substitution_plain)


subsection \<open>The sentinel\<close>

lemma split_dot_plain: "DOT \<notin> set t \<Longrightarrow> split_on DOT t = [t]"
  by (induction t) auto

text \<open>
  A tag of one part resolves to the sentinel when the field is missing, undefined or null,
  and also when the record stores the text \<open>?\<close> itself.
\<close>

lemma getTagValue_missing:
  assumes "DOT \<notin> set t" "t \<noteq> js ''extra''" "map_of obj t = None"
  shows "getTagValue jparse nstr t obj = Inr (VStr (js ''?''))"
  using assms by (simp add: getTagValue.simps split_dot_plain js_get_def)

lemma getTagValue_stored_sentinel:
  assumes "DOT \<notin> set t" "t \<noteq> js ''extra''" "map_of obj t = Some (VStr (js ''?''))"
  shows "getTagValue jparse nstr t obj = Inr (VStr (js ''?''))"
  using assms by (simp add: getTagValue.simps split_dot_plain js_get_def)



subsection \<open>Blocks with a value\<close>

text \<open>
  A block whose tag has a value, between texts without an opening brace: where prefix,
  value and suffix hold no dollar sign the block is replaced by the three.
\<close>

lemma optional_block_rendered:
  assumes "brace_free p" "brace_free t" "brace_free s"
    and "one_line p" "one_line t" "one_line s"
    and "getTagValue jparse nstr t obj = Inr v" "v \<noteq> VStr (js ''?'')"
    and "DOLLAR \<notin> set (p @ js_String nstr v @ s)"
    and "LBRACE \<notin> set pre" "LBRACE \<notin> set post"
  shows "renderTemplateText jparse nstr (pre @ optionalBlock p t s @ post) obj
    = Inr (pre @ p @ js_String nstr v @ s @ post)"
proof -
  have "js_replace (pre @ optionalBlock p t s @ post) (optionalBlock p t s)
      (p @ js_String nstr v @ s) = pre @ (p @ js_String nstr v @ s) @ post"
    using js_replace_plain[OF assms(10) assms(9),
        of "p @ LBRACE # t @ RBRACE # s @ [RBRACE]" post]
    by (simp add: optionalBlock_def)
  then show ?thesis
    using assms(7,8)
    by (simp add: renderTemplateText_def matchAll_spans_block[OF assms(1-3) assms(10,11)]
        render_step_def count_open_block[OF assms(1-3)] structure_match_block[OF assms(1-6)])
qed

text \<open>
  Claim C1 (the code departs from it). The block \<open>{Lot: {lot_nr}}\<close> with the lot number
  \<open>$&\<close> in the record is not replaced by prefix, value and suffix, \<open>Lot: $&\<close>: the
  replacement text goes through the substitution patterns of \<open>String.prototype.replace\<close>,
  and \<open>$&\<close> brings the whole block back. In the same way \<open>$$\<close> in a value is printed
  as one dollar sign.
\<close>

theorem optional_block_dollar_pattern:
  "renderTemplateText jparse nstr (js ''{Lot: {lot_nr}}'') [(js ''lot_nr'', VStr (js ''$&''))]
   = Inr (js ''Lot: {Lot: {lot_nr}}'')"
  by (simp add: render_eval)

lemma optional_block_double_dollar:
  "renderTemplateText jparse nstr (js ''{Note: {comment}}'')
     [(js ''comment'', VStr (js ''US$$''))]
   = Inr (js ''Note: US$'')"
  by (simp add: render_eval)

subsection \<open>Spans outside the depth and shape contract\<close>






subsection \<open>Replacement by text search\<close>

text \<open>
  Claim C2 (the code departs from it). The matches are taken from the template once, but
  each is replaced at its first occurrence in the text rendered so far. With the template
  \<open>{a}{b}\<close> and the record \<open>a = "{b}"\<close>, \<open>b = "X"\<close>, the second step expands the
  \<open>{b}\<close> that the first step substituted, and the tag of the template stays: the result is
  \<open>X{b}\<close>, not \<open>{b}X\<close>.
\<close>

theorem substituted_value_rescanned:
  "renderTemplateText jparse nstr (js ''{a}{b}'')
     [(js ''a'', VStr (js ''{b}'')), (js ''b'', VStr (js ''X''))]
   = Inr (js ''X{b}'')"
  by (simp add: render_eval)

text \<open>
  The same search reaches into a span outside the contract that stands before a tag it
  contains: the span is expanded in part, and the tag itself stays unresolved.
\<close>

lemma malformed_span_rewritten:
  "renderTemplateText jparse nstr (js ''{a{b}c{d}e}{b}'') [(js ''b'', VStr (js ''V''))]
   = Inr (js ''{aVc{d}e}{b}'')"
  by (simp add: render_eval)

section \<open>File names of exported labels\<close>

text \<open>\<open>value.trim()\<close>\<close>

definition js_trim :: "jsstring \<Rightarrow> jsstring" where
  "js_trim s = rev (dropWhile is_whitespace (rev (dropWhile is_whitespace s)))"

text \<open>The class \<open>[<>:"/\\|?*\x00-\x1F]\<close>\<close>

definition disallowed :: "jschar \<Rightarrow> bool" where
  "disallowed c \<longleftrightarrow>
     c = 0x3C \<or> c = 0x3E \<or> c = 0x3A \<or> c = 0x22 \<or> c = 0x2F \<or> c = 0x5C \<or>
     c = 0x7C \<or> c = 0x3F \<or> c = 0x2A \<or> c \<le> 0x1F"

text \<open>\<open>.replace(/[<>:"/\\|?*\x00-\x1F]/g, "-")\<close>\<close>

definition replace_disallowed :: "jsstring \<Rightarrow> jsstring" where
  "replace_disallowed s = map (\<lambda>c. if disallowed c then HYPHEN else c) s"

text \<open>\<open>.replace(/\s+/g, " ")\<close>: every maximal run of whitespace becomes one space.\<close>

function collapse_whitespace :: "jsstring \<Rightarrow> jsstring" where
  "collapse_whitespace [] = []"
| "collapse_whitespace (c # cs) =
     (if is_whitespace c then SPACE # collapse_whitespace (dropWhile is_whitespace cs)
      else c # collapse_whitespace cs)"
  by pat_completeness auto
termination
  by (relation "measure length") (auto simp: less_Suc_eq_le length_dropWhile_le)

text \<open>
  \<open>.replace(/\.+$/g, "")\<close>: without the \<open>m\<close> flag \<open>$\<close> is the end of the text, so the
  one match is the run of dots that ends the text.
\<close>

definition strip_trailing_dots :: "jsstring \<Rightarrow> jsstring" where
  "strip_trailing_dots s = rev (dropWhile (\<lambda>c. c = DOT) (rev s))"

definition sanitizeFilename :: "jsstring \<Rightarrow> jsstring" where
  "sanitizeFilename v =
     (let trimmed = js_trim v in
      if trimmed = [] then []
      else strip_trailing_dots (collapse_whitespace (replace_disallowed trimmed)))"

lemmas sanitize_eval =
  sanitizeFilename_def js_trim_def replace_disallowed_def strip_trailing_dots_def
  disallowed_def is_whitespace_def js_def jschar_defs

lemma sanitize_example:
  "sanitizeFilename (js ''  PLA/Black:  1.75.. '') = js ''PLA-Black- 1.75''"
  by (simp add: sanitize_eval)

text \<open>
  When is a sanitized name sanitized to itself? Its whitespace is made of single spaces, it
  holds no disallowed character, and it neither starts with whitespace nor ends with a dot;
  what is left open is a space at its end.
\<close>

fun ws_normal :: "jsstring \<Rightarrow> bool" where
  "ws_normal [] = True"
| "ws_normal [c] = (is_whitespace c \<longrightarrow> c = SPACE)"
| "ws_normal (c # d # cs) =
     ((is_whitespace c \<longrightarrow> c = SPACE \<and> \<not> is_whitespace d) \<and> ws_normal (d # cs))"

lemma space_is_whitespace [simp]: "is_whitespace SPACE"
  by (simp add: is_whitespace_def SPACE_def)

lemma hyphen_plain [simp]: "\<not> is_whitespace HYPHEN" "\<not> disallowed HYPHEN"
  by (simp_all add: is_whitespace_def disallowed_def HYPHEN_def)

lemma space_allowed [simp]: "\<not> disallowed SPACE"
  by (simp add: disallowed_def SPACE_def)

lemma dropWhile_ws_head: "dropWhile is_whitespace s = c # cs \<Longrightarrow> \<not> is_whitespace c"
  using hd_dropWhile[of is_whitespace s] by auto

lemma collapse_head:
  "\<not> is_whitespace c \<Longrightarrow> collapse_whitespace (c # cs) = c # collapse_whitespace cs"
  by simp

lemma collapse_no_leading_ws:
  "s = [] \<or> \<not> is_whitespace (hd s) \<Longrightarrow>
   collapse_whitespace s = [] \<or> \<not> is_whitespace (hd (collapse_whitespace s))"
  by (cases s) auto

lemma ws_normal_collapse: "ws_normal (collapse_whitespace s)"
proof (induction s rule: collapse_whitespace.induct)
  case 1
  show ?case by simp
next
  case (2 c cs)
  show ?case
  proof (cases "is_whitespace c")
    case True
    let ?r = "dropWhile is_whitespace cs"
    from True 2 have ih: "ws_normal (collapse_whitespace ?r)" by simp
    have "?r = [] \<or> \<not> is_whitespace (hd ?r)"
      using hd_dropWhile[of is_whitespace cs] by auto
    then have "collapse_whitespace ?r = [] \<or> \<not> is_whitespace (hd (collapse_whitespace ?r))"
      by (rule collapse_no_leading_ws)
    with ih True show ?thesis
      by (cases "collapse_whitespace ?r") auto
  next
    case False
    with 2 have ih: "ws_normal (collapse_whitespace cs)" by simp
    with False show ?thesis
      by (cases "collapse_whitespace cs") auto
  qed
qed

lemma collapse_ws_normal: "ws_normal s \<Longrightarrow> collapse_whitespace s = s"
proof (induction s rule: ws_normal.induct)
  case 1
  show ?case by simp
next
  case (2 c)
  then show ?case by auto
next
  case (3 c d cs)
  then show ?case by auto
qed

lemma ws_normal_butlast: "ws_normal (s @ [c]) \<Longrightarrow> ws_normal s"
proof (induction s rule: ws_normal.induct)
  case 1
  show ?case by simp
next
  case (2 a)
  then show ?case by simp
next
  case (3 a b cs)
  then show ?case by simp
qed

lemma ws_normal_prefix: "ws_normal (s @ t) \<Longrightarrow> ws_normal s"
proof (induction t rule: rev_induct)
  case Nil
  then show ?case by simp
next
  case (snoc c t)
  from snoc.prems have "ws_normal ((s @ t) @ [c])" by simp
  then have "ws_normal (s @ t)" by (rule ws_normal_butlast)
  then show ?case by (rule snoc.IH)
qed

lemma strip_trailing_dots_prefix:
  "\<exists>k. s = strip_trailing_dots s @ replicate k DOT"
proof -
  have "rev s = takeWhile (\<lambda>c. c = DOT) (rev s) @ dropWhile (\<lambda>c. c = DOT) (rev s)"
    by simp
  then have "s = rev (dropWhile (\<lambda>c. c = DOT) (rev s)) @ rev (takeWhile (\<lambda>c. c = DOT) (rev s))"
    by (metis rev_append rev_rev_ident)
  moreover have "rev (takeWhile (\<lambda>c. c = DOT) (rev s))
      = replicate (length (takeWhile (\<lambda>c. c = DOT) (rev s))) DOT"
    by (metis (mono_tags, lifting) length_rev replicate_length_same set_rev set_takeWhileD)
  ultimately show ?thesis
    unfolding strip_trailing_dots_def by metis
qed

lemma strip_trailing_dots_last:
  "strip_trailing_dots s = [] \<or> last (strip_trailing_dots s) \<noteq> DOT"
proof -
  let ?d = "dropWhile (\<lambda>c. c = DOT) (rev s)"
  show ?thesis
  proof (cases ?d)
    case Nil
    then show ?thesis by (simp add: strip_trailing_dots_def)
  next
    case (Cons c cs)
    then have "c \<noteq> DOT"
      using hd_dropWhile[of "\<lambda>c. c = DOT" "rev s"] by auto
    with Cons show ?thesis by (simp add: strip_trailing_dots_def)
  qed
qed

lemma strip_trailing_dots_fixed:
  "s = [] \<or> last s \<noteq> DOT \<Longrightarrow> strip_trailing_dots s = s"
  by (cases s rule: rev_cases) (auto simp: strip_trailing_dots_def)

lemma js_trim_fixed:
  assumes "s \<noteq> []" "\<not> is_whitespace (hd s)" "\<not> is_whitespace (last s)"
  shows "js_trim s = s"
proof -
  from assms have 1: "dropWhile is_whitespace s = s" by (cases s) auto
  from assms have "dropWhile is_whitespace (rev s) = rev s"
    by (cases s rule: rev_cases) auto
  with 1 show ?thesis by (simp add: js_trim_def)
qed

lemma js_trim_head: "js_trim s = [] \<or> \<not> is_whitespace (hd (js_trim s))"
proof -
  let ?u = "dropWhile is_whitespace s"
  show ?thesis
  proof (cases ?u)
    case Nil
    show ?thesis unfolding js_trim_def Nil by simp
  next
    case (Cons c cs)
    then have c: "\<not> is_whitespace c" by (rule dropWhile_ws_head)
    have "rev (dropWhile is_whitespace (rev (c # cs))) = c # rev (dropWhile is_whitespace (rev cs))
        \<or> rev (dropWhile is_whitespace (rev (c # cs))) = [c]"
      using c by (auto simp: dropWhile_append)
    then show ?thesis unfolding js_trim_def Cons using c by auto
  qed
qed

lemma replace_disallowed_fixed: "list_all (\<lambda>c. \<not> disallowed c) s \<Longrightarrow> replace_disallowed s = s"
  by (induction s) (auto simp: replace_disallowed_def)

lemma replace_disallowed_allowed: "list_all (\<lambda>c. \<not> disallowed c) (replace_disallowed s)"
  by (induction s) (auto simp: replace_disallowed_def)

lemma collapse_allowed:
  "list_all (\<lambda>c. \<not> disallowed c) s \<Longrightarrow> list_all (\<lambda>c. \<not> disallowed c) (collapse_whitespace s)"
proof (induction s rule: collapse_whitespace.induct)
  case 1
  show ?case by simp
next
  case (2 c cs)
  have "list_all (\<lambda>c. \<not> disallowed c) (dropWhile is_whitespace cs)"
    using "2.prems" by (auto simp: list_all_iff dest: set_dropWhileD)
  with 2 show ?case by auto
qed

lemma replace_disallowed_head:
  "s \<noteq> [] \<Longrightarrow> \<not> is_whitespace (hd s) \<Longrightarrow>
   replace_disallowed s \<noteq> [] \<and> \<not> is_whitespace (hd (replace_disallowed s))"
  by (cases s) (auto simp: replace_disallowed_def)

lemma sanitizeFilename_idempotent_if:
  assumes "sanitizeFilename x = [] \<or> \<not> is_whitespace (last (sanitizeFilename x))"
  shows "sanitizeFilename (sanitizeFilename x) = sanitizeFilename x"
proof (cases "sanitizeFilename x = []")
  case True
  then show ?thesis by (simp add: sanitizeFilename_def js_trim_def)
next
  case False
  let ?t = "js_trim x"
  let ?z = "collapse_whitespace (replace_disallowed ?t)"
  let ?y = "sanitizeFilename x"
  from False have t: "?t \<noteq> []" and y: "?y = strip_trailing_dots ?z"
    by (auto simp: sanitizeFilename_def Let_def split: if_splits)
  from strip_trailing_dots_prefix[of ?z] y obtain k where z: "?z = ?y @ replicate k DOT"
    by auto
  from t js_trim_head[of x] have "\<not> is_whitespace (hd ?t)" by simp
  with t have r: "replace_disallowed ?t \<noteq> []" "\<not> is_whitespace (hd (replace_disallowed ?t))"
    using replace_disallowed_head by blast+
  then have "hd ?z = hd (replace_disallowed ?t)"
    by (cases "replace_disallowed ?t") auto
  moreover from False z have "hd ?z = hd ?y" by (metis hd_append2)
  ultimately have hd: "\<not> is_whitespace (hd ?y)" using r(2) by simp
  from assms False have last: "\<not> is_whitespace (last ?y)" by simp
  have trim: "js_trim ?y = ?y"
    using False hd last by (rule js_trim_fixed)
  have "list_all (\<lambda>c. \<not> disallowed c) ?z"
    by (intro collapse_allowed replace_disallowed_allowed)
  then have "list_all (\<lambda>c. \<not> disallowed c) ?y"
    by (subst (asm) z) simp
  then have rep: "replace_disallowed ?y = ?y" by (rule replace_disallowed_fixed)
  have "ws_normal ?z" by (rule ws_normal_collapse)
  then have "ws_normal ?y" by (subst (asm) z) (rule ws_normal_prefix)
  then have col: "collapse_whitespace ?y = ?y" by (rule collapse_ws_normal)
  have strip: "strip_trailing_dots ?y = ?y"
    using strip_trailing_dots_last[of ?z] y by (intro strip_trailing_dots_fixed) simp
  show ?thesis
    using False trim rep col strip
    by (subst (1) sanitizeFilename_def) (simp add: Let_def)
qed


lemma length_collapse: "length (collapse_whitespace s) \<le> length s"
proof (induction s rule: collapse_whitespace.induct)
  case 1
  show ?case by simp
next
  case (2 c cs)
  have "length (dropWhile is_whitespace cs) \<le> length cs"
    by (rule length_dropWhile_le)
  with 2 show ?case by auto
qed

lemma length_strip_trailing_dots: "length (strip_trailing_dots s) \<le> length s"
  using length_dropWhile_le[of "\<lambda>c. c = DOT" "rev s"] by (simp add: strip_trailing_dots_def)

lemma length_sanitizeFilename: "length (sanitizeFilename v) \<le> length (js_trim v)"
proof -
  have "length (strip_trailing_dots (collapse_whitespace (replace_disallowed (js_trim v))))
      \<le> length (collapse_whitespace (replace_disallowed (js_trim v)))"
    by (rule length_strip_trailing_dots)
  also have "\<dots> \<le> length (replace_disallowed (js_trim v))"
    by (rule length_collapse)
  also have "\<dots> = length (js_trim v)"
    by (simp add: replace_disallowed_def)
  finally show ?thesis
    by (simp add: sanitizeFilename_def Let_def)
qed

lemma length_dropWhile_rev_less:
  "v \<noteq> [] \<Longrightarrow> P (last v) \<Longrightarrow> length (dropWhile P (rev v)) < length v"
proof (cases v rule: rev_cases)
  case Nil
  assume "v \<noteq> []"
  with Nil show ?thesis by simp
next
  case (snoc ys a)
  assume "P (last v)"
  with snoc have "dropWhile P (rev v) = dropWhile P (rev ys)" by simp
  with snoc length_dropWhile_le[of P "rev ys"] show ?thesis by simp
qed

lemma length_js_trim_less:
  assumes "s \<noteq> []" "is_whitespace (last s)"
  shows "length (js_trim s) < length s"
proof -
  let ?u = "dropWhile is_whitespace s"
  have le: "length ?u \<le> length s" by (rule length_dropWhile_le)
  show ?thesis
  proof (cases "?u = []")
    case True
    show ?thesis unfolding js_trim_def True using assms(1) by simp
  next
    case False
    have "s = takeWhile is_whitespace s @ ?u" by simp
    with False have "last ?u = last s" by (metis last_appendR)
    with assms(2) have "is_whitespace (last ?u)" by simp
    with False have "length (dropWhile is_whitespace (rev ?u)) < length ?u"
      by (rule length_dropWhile_rev_less)
    with le show ?thesis by (simp add: js_trim_def)
  qed
qed

text \<open>
  So sanitizing twice gives the same as sanitizing once exactly for the inputs whose
  sanitized name does not end with whitespace.
\<close>

lemma sanitizeFilename_idempotent_iff:
  "sanitizeFilename (sanitizeFilename x) = sanitizeFilename x
    \<longleftrightarrow> sanitizeFilename x = [] \<or> \<not> is_whitespace (last (sanitizeFilename x))"
proof
  assume eq: "sanitizeFilename (sanitizeFilename x) = sanitizeFilename x"
  show "sanitizeFilename x = [] \<or> \<not> is_whitespace (last (sanitizeFilename x))"
  proof (rule ccontr)
    assume "\<not> (sanitizeFilename x = [] \<or> \<not> is_whitespace (last (sanitizeFilename x)))"
    then have "sanitizeFilename x \<noteq> []" "is_whitespace (last (sanitizeFilename x))"
      by simp_all
    then have "length (js_trim (sanitizeFilename x)) < length (sanitizeFilename x)"
      by (rule length_js_trim_less)
    with length_sanitizeFilename[of "sanitizeFilename x"] eq show False by simp
  qed
next
  assume "sanitizeFilename x = [] \<or> \<not> is_whitespace (last (sanitizeFilename x))"
  then show "sanitizeFilename (sanitizeFilename x) = sanitizeFilename x"
    by (rule sanitizeFilename_idempotent_if)
qed

text \<open>
  Claim C3 (the code departs from it). The text is trimmed before the trailing dots are
  stripped, so a space in front of them ends the result: \<open>a .\<close> is sanitized to \<open>a \<close>
  with the space, and sanitizing that once more gives \<open>a\<close>.
\<close>

theorem sanitizeFilename_twice_differs:
  "sanitizeFilename (js ''a .'') = js ''a ''
   \<and> sanitizeFilename (sanitizeFilename (js ''a .'')) = js ''a''"
  by (simp add: sanitize_eval)


section \<open>Unique export items\<close>

text \<open>
  \<open>String(n)\<close> for a counter: the decimal digits of a natural number (the counters
  \<open>idx\<close> and \<open>nameSuffix\<close> stay far below the range where a JavaScript number
  is printed with an exponent).
\<close>

fun String_nat :: "nat \<Rightarrow> jsstring" where
  "String_nat n =
     (if n < 10 then [of_nat (48 + n)]
      else String_nat (n div 10) @ [of_nat (48 + n mod 10)])"

declare String_nat.simps [simp del]

text \<open>\<open>.padStart(2, "0")\<close>\<close>

definition padStart2 :: "jsstring \<Rightarrow> jsstring" where
  "padStart2 s = replicate (2 - length s) 0x30 @ s"

text \<open>The template literal \<open>`label-${idx}`\<close>\<close>

definition label_name :: "nat \<Rightarrow> jsstring" where
  "label_name idx = js ''label-'' @ String_nat idx"

text \<open>\<open>a || b\<close> on texts: the empty text is falsy.\<close>

definition or_else :: "jsstring \<Rightarrow> jsstring \<Rightarrow> jsstring" where
  "or_else a b = (if a = [] then b else a)"

text \<open>\<open>`${baseName}${String(nameSuffix).padStart(2, "0")}`\<close>\<close>

definition suffixed :: "jsstring \<Rightarrow> nat \<Rightarrow> jsstring" where
  "suffixed baseName nameSuffix = baseName @ padStart2 (String_nat nameSuffix)"

text \<open>
  The number a text of digits stands for. It recovers the counter from a suffix, so two
  counters give two suffixes.
\<close>

definition digit_value :: "jsstring \<Rightarrow> nat" where
  "digit_value s = foldl (\<lambda>acc c. 10 * acc + (unat c - 48)) 0 s"

lemma digit_value_snoc: "digit_value (s @ [c]) = 10 * digit_value s + (unat c - 48)"
  by (simp add: digit_value_def)

lemma unat_of_digit: "d < 10 \<Longrightarrow> unat (of_nat (48 + d) :: jschar) = 48 + d"
  by (simp only: unat_of_nat) simp

lemma unat_digit: "d < 10 \<Longrightarrow> unat (48 + of_nat d :: jschar) = 48 + d"
  using unat_of_digit[of d] by simp

lemma digit_value_String_nat: "digit_value (String_nat n) = n"
proof (induction n rule: String_nat.induct)
  case (1 n)
  show ?case
  proof (cases "n < 10")
    case True
    then show ?thesis
      by (subst String_nat.simps) (simp add: digit_value_def unat_digit)
  next
    case False
    with 1 have "digit_value (String_nat (n div 10)) = n div 10" by simp
    with False show ?thesis
      by (subst String_nat.simps) (simp add: digit_value_snoc unat_digit)
  qed
qed

lemma digit_value_zeros: "digit_value (replicate k 0x30 @ s) = digit_value s"
  by (induction k) (simp_all add: digit_value_def)

lemma digit_value_padStart2: "digit_value (padStart2 (String_nat n)) = n"
  by (simp add: padStart2_def digit_value_zeros digit_value_String_nat)

lemma suffixed_inj: "suffixed b j = suffixed b k \<Longrightarrow> j = k"
  by (metis suffixed_def same_append_eq digit_value_padStart2)

lemma String_nat_nonempty: "String_nat n \<noteq> []"
  by (subst String_nat.simps) simp

lemma suffixed_neq_base: "suffixed b k \<noteq> b"
  by (simp add: suffixed_def padStart2_def String_nat_nonempty)

lemma finite_suffixed_used: "finite {k. suffixed b k \<in> set used}"
proof -
  have "{k. suffixed b k \<in> set used} \<subseteq> (\<lambda>u. digit_value (drop (length b) u)) ` set used"
  proof
    fix k assume "k \<in> {k. suffixed b k \<in> set used}"
    then have "suffixed b k \<in> set used" by simp
    moreover have "digit_value (drop (length b) (suffixed b k)) = k"
      by (simp add: suffixed_def digit_value_padStart2)
    ultimately show "k \<in> (\<lambda>u. digit_value (drop (length b) u)) ` set used"
      by force
  qed
  then show ?thesis by (rule finite_subset) simp
qed

text \<open>
  The \<open>while\<close> loop that looks for an unused name ends: the counters from
  \<open>nameSuffix\<close> on whose name is in use are finitely many, and every turn of the loop
  passes one of them.
\<close>

definition pending :: "jsstring list \<Rightarrow> jsstring \<Rightarrow> nat \<Rightarrow> nat set" where
  "pending used b n = {k. n \<le> k \<and> suffixed b k \<in> set used}"

lemma pending_step:
  "card (pending used b n) = card (pending used b (Suc n)) + (if suffixed b n \<in> set used then 1 else 0)"
proof -
  have fin: "finite (pending used b (Suc n))"
    unfolding pending_def by (rule finite_subset[OF _ finite_suffixed_used[of b used]]) auto
  have notin: "n \<notin> pending used b (Suc n)" by (simp add: pending_def)
  show ?thesis
  proof (cases "suffixed b n \<in> set used")
    case True
    then have "pending used b n = insert n (pending used b (Suc n))"
      by (auto simp: pending_def le_Suc_eq)
    with fin notin True show ?thesis by simp
  next
    case False
    then have "pending used b n = pending used b (Suc n)"
      by (auto simp: pending_def) (metis Suc_leI le_neq_implies_less)
    with False show ?thesis by simp
  qed
qed

function unique_name :: "jsstring list \<Rightarrow> jsstring \<Rightarrow> jsstring \<Rightarrow> nat \<Rightarrow> jsstring" where
  "unique_name usedNames baseName safeName nameSuffix =
     (if safeName \<in> set usedNames
      then unique_name usedNames baseName (suffixed baseName nameSuffix) (nameSuffix + 1)
      else safeName)"
  by pat_completeness auto
termination
proof (relation "measure (\<lambda>(used, b, safe, n).
    card (pending used b n) + (if safe \<in> set used then 1 else 0))")
  show "wf (measure (\<lambda>(used, b, safe, n).
    card (pending used b n) + (if safe \<in> set used then 1 else 0)))" by simp
next
  fix baseName safeName :: jsstring and nameSuffix :: nat and usedNames :: "jsstring list"
  assume "safeName \<in> set usedNames"
  then show "((usedNames, baseName, suffixed baseName nameSuffix, nameSuffix + 1),
      usedNames, baseName, safeName, nameSuffix)
    \<in> measure (\<lambda>(used, b, safe, n). card (pending used b n) + (if safe \<in> set used then 1 else 0))"
    using pending_step[of usedNames baseName nameSuffix] by simp
qed

declare unique_name.simps [simp del]


lemma unique_name_fresh: "unique_name usedNames baseName safeName nameSuffix \<notin> set usedNames"
proof (induction usedNames baseName safeName nameSuffix rule: unique_name.induct)
  case (1 usedNames baseName safeName nameSuffix)
  then show ?case
    by (subst unique_name.simps) auto
qed

text \<open>The name of the \<open>k\<close>-th item of a run of items with one base name.\<close>

definition nth_name :: "jsstring \<Rightarrow> nat \<Rightarrow> jsstring" where
  "nth_name baseName k = (if k = 0 then baseName else suffixed baseName k)"

lemma nth_name_inj: "nth_name b i = nth_name b j \<Longrightarrow> i = j"
  using suffixed_neq_base[of b] suffixed_inj[of b]
  by (auto simp: nth_name_def split: if_splits) metis

lemma unique_name_run:
  "j \<le> k \<Longrightarrow> unique_name (map (nth_name b) [0..<k]) b (nth_name b j) (Suc j) = nth_name b k"
proof (induction "k - j" arbitrary: j)
  case 0
  then have "j = k" by simp
  moreover have "nth_name b k \<notin> set (map (nth_name b) [0..<k])"
    using nth_name_inj[of b k] by auto
  ultimately show ?case
    by (subst unique_name.simps) simp
next
  case (Suc d)
  then have lt: "j < k" and d: "d = k - Suc j" and le: "Suc j \<le> k" by simp_all
  have "nth_name b j \<in> set (map (nth_name b) [0..<k])"
    using lt by simp
  then have "unique_name (map (nth_name b) [0..<k]) b (nth_name b j) (Suc j)
      = unique_name (map (nth_name b) [0..<k]) b (nth_name b (Suc j)) (Suc (Suc j))"
    by (subst unique_name.simps) (simp add: nth_name_def)
  with Suc.hyps(1)[OF d le] show ?case by simp
qed

text \<open>
  A label element of the page: its \<open>data-aml-name\<close> attribute (\<open>dataset.amlName\<close>,
  undefined without the attribute) and the rest of the node. \<open>isEqualNode\<close> compares
  two nodes structurally, which on this representation is equality.
\<close>

record 'a element =
  amlName :: "jsstring option"
  body :: 'a

definition isEqualNode :: "'a element \<Rightarrow> 'a element \<Rightarrow> bool" where
  "isEqualNode a b \<longleftrightarrow> a = b"

text \<open>
  \<open>getUniqueExportItems\<close>: the \<open>for\<close> loop over the items with its four variables.
\<close>

fun export_loop ::
  "'a element list \<Rightarrow> 'a element list \<Rightarrow> jsstring list \<Rightarrow> ('a element \<times> jsstring) list \<Rightarrow> nat
    \<Rightarrow> ('a element \<times> jsstring) list" where
  "export_loop [] hasPrinted usedNames uniqueItems idx = uniqueItems"
| "export_loop (item # itemsToPrint) hasPrinted usedNames uniqueItems idx =
     (if list_ex (isEqualNode item) hasPrinted
      then export_loop itemsToPrint hasPrinted usedNames uniqueItems idx
      else
        (let rawName = or_else (case amlName item of None \<Rightarrow> [] | Some n \<Rightarrow> n) (label_name idx);
             baseName = or_else (sanitizeFilename rawName) (label_name idx);
             safeName = unique_name usedNames baseName baseName 1
         in export_loop itemsToPrint (hasPrinted @ [item]) (usedNames @ [safeName])
              (uniqueItems @ [(item, safeName)]) (idx + 1)))"

definition getUniqueExportItems :: "'a element list \<Rightarrow> ('a element \<times> jsstring) list" where
  "getUniqueExportItems itemsToPrint = export_loop itemsToPrint [] [] [] 1"

text \<open>An item whose raw name is sanitized to \<open>b\<close>.\<close>

definition same_base :: "jsstring \<Rightarrow> 'a element \<Rightarrow> bool" where
  "same_base b item \<longleftrightarrow> (case amlName item of None \<Rightarrow> False | Some raw \<Rightarrow> sanitizeFilename raw = b)"

lemma sanitizeFilename_Nil: "sanitizeFilename [] = []"
  by (simp add: sanitizeFilename_def js_trim_def)

lemma same_base_name:
  assumes "b \<noteq> []" "same_base b item"
  shows "or_else (sanitizeFilename (or_else (case amlName item of None \<Rightarrow> [] | Some n \<Rightarrow> n)
      (label_name idx))) (label_name idx) = b"
proof -
  from assms obtain raw where raw: "amlName item = Some raw" "sanitizeFilename raw = b"
    by (auto simp: same_base_def split: option.splits)
  with assms(1) have "raw \<noteq> []" using sanitizeFilename_Nil by auto
  with raw assms(1) show ?thesis by (simp add: or_else_def)
qed

lemma export_loop_same_base:
  assumes "b \<noteq> []" "list_all (same_base b) itemsToPrint"
    and "map snd uniqueItems = map (nth_name b) [0..<length uniqueItems]"
    and "usedNames = map snd uniqueItems" "hasPrinted = map fst uniqueItems"
    and "distinct hasPrinted"
  shows "map snd (export_loop itemsToPrint hasPrinted usedNames uniqueItems idx)
    = map (nth_name b) [0..<length uniqueItems + card (set itemsToPrint - set hasPrinted)]"
  using assms(2-)
proof (induction itemsToPrint arbitrary: hasPrinted usedNames uniqueItems idx)
  case Nil
  then show ?case by simp
next
  case (Cons item itemsToPrint)
  from Cons.prems(1) have sb: "same_base b item" and rest: "list_all (same_base b) itemsToPrint"
    by simp_all
  show ?case
  proof (cases "item \<in> set hasPrinted")
    case True
    then have "set (item # itemsToPrint) - set hasPrinted = set itemsToPrint - set hasPrinted"
      by auto
    with True Cons.IH[OF rest Cons.prems(2-5)] show ?thesis
      by (simp add: list_ex_iff isEqualNode_def)
  next
    case False
    let ?k = "length uniqueItems"
    have used: "usedNames = map (nth_name b) [0..<?k]"
      using Cons.prems(2,3) by simp
    have safe: "unique_name usedNames b b 1 = nth_name b ?k"
      using unique_name_run[of 0 ?k b] used by (simp add: nth_name_def)
    let ?ui = "uniqueItems @ [(item, nth_name b ?k)]"
    have 1: "map snd ?ui = map (nth_name b) [0..<length ?ui]"
      using Cons.prems(2) by simp
    have 2: "usedNames @ [nth_name b ?k] = map snd ?ui"
      using Cons.prems(3) by simp
    have 3: "hasPrinted @ [item] = map fst ?ui"
      using Cons.prems(4) by simp
    have 4: "distinct (hasPrinted @ [item])"
      using Cons.prems(5) False by simp
    have "finite (set itemsToPrint - set hasPrinted)" by simp
    have "set (item # itemsToPrint) - set hasPrinted
        = insert item (set itemsToPrint - set (hasPrinted @ [item]))"
      using False by auto
    moreover have "item \<notin> set itemsToPrint - set (hasPrinted @ [item])" by simp
    ultimately have card: "card (set (item # itemsToPrint) - set hasPrinted)
        = Suc (card (set itemsToPrint - set (hasPrinted @ [item])))"
      by (simp del: set_append)
    from Cons.IH[OF rest 1 2 3 4, of "idx + 1"] False safe card show ?thesis
      by (simp add: list_ex_iff isEqualNode_def same_base_name[OF assms(1) sb] Let_def)
  qed
qed

lemma export_loop_distinct:
  assumes "usedNames = map snd uniqueItems" "distinct usedNames"
  shows "distinct (map snd (export_loop itemsToPrint hasPrinted usedNames uniqueItems idx))"
  using assms
proof (induction itemsToPrint arbitrary: hasPrinted usedNames uniqueItems idx)
  case Nil
  then show ?case by simp
next
  case (Cons item itemsToPrint)
  show ?case
  proof (cases "list_ex (isEqualNode item) hasPrinted")
    case True
    with Cons show ?thesis by simp
  next
    case False
    define safeName where "safeName = unique_name usedNames
      (or_else (sanitizeFilename (or_else (case amlName item of None \<Rightarrow> [] | Some n \<Rightarrow> n)
        (label_name idx))) (label_name idx))
      (or_else (sanitizeFilename (or_else (case amlName item of None \<Rightarrow> [] | Some n \<Rightarrow> n)
        (label_name idx))) (label_name idx)) 1"
    have "safeName \<notin> set usedNames"
      unfolding safeName_def by (rule unique_name_fresh)
    with Cons.prems have "usedNames @ [safeName] = map snd (uniqueItems @ [(item, safeName)])"
      "distinct (usedNames @ [safeName])"
      by simp_all
    from Cons.IH[OF this] False show ?thesis
      by (simp add: Let_def safeName_def)
  qed
qed

lemma getUniqueExportItems_distinct: "distinct (map snd (getUniqueExportItems itemsToPrint))"
  unfolding getUniqueExportItems_def by (rule export_loop_distinct) simp_all

lemma getUniqueExportItems_same_base:
  assumes "b \<noteq> []" "list_all (same_base b) itemsToPrint"
  shows "map snd (getUniqueExportItems itemsToPrint)
    = map (nth_name b) [0..<card (set itemsToPrint)]"
  using export_loop_same_base[OF assms, of "[]" "[]" "[]" 1]
  by (simp add: getUniqueExportItems_def)


lemma two_digit_suffix: "k < 100 \<Longrightarrow> length (padStart2 (String_nat k)) = 2"
proof (cases "k < 10")
  case True
  then show ?thesis
    by (subst String_nat.simps) (simp add: padStart2_def)
next
  case False
  assume "k < 100"
  with False have "k div 10 < 10" by simp
  then have "length (String_nat (k div 10)) = 1"
    by (subst String_nat.simps) simp
  with False show ?thesis
    by (subst String_nat.simps) (simp add: padStart2_def)
qed

text \<open>Labels that differ in their content only.\<close>

definition numbered_label :: "jsstring \<Rightarrow> nat \<Rightarrow> nat element" where
  "numbered_label raw i = \<lparr>amlName = Some raw, body = i\<rparr>"

text \<open>
  Claim C5, as amended. When the raw names of all items are sanitized to one base name
  \<open>b\<close>, the items that differ as nodes (copies are exported once) get pairwise
  distinct names: the first is \<open>b\<close>, and the \<open>k\<close>-th after it is \<open>b\<close> followed by
  \<open>k\<close> in decimal, padded with a zero to two digits; up to \<open>k = 99\<close> that suffix has
  exactly two digits.
\<close>

theorem colliding_names_suffixed:
  assumes "b \<noteq> []" "list_all (same_base b) itemsToPrint"
  shows "map snd (getUniqueExportItems itemsToPrint)
      = map (\<lambda>k. if k = 0 then b else b @ padStart2 (String_nat k))
          [0..<card (set itemsToPrint)]
    \<and> distinct (map snd (getUniqueExportItems itemsToPrint))
    \<and> (0 < k \<and> k < 100 \<longrightarrow> length (padStart2 (String_nat k)) = 2)"
proof -
  have "nth_name b = (\<lambda>k. if k = 0 then b else b @ padStart2 (String_nat k))"
    by (rule ext) (simp add: nth_name_def suffixed_def)
  with getUniqueExportItems_same_base[OF assms] getUniqueExportItems_distinct[of itemsToPrint]
  show ?thesis by (simp add: two_digit_suffix)
qed

lemma same_base_a: "same_base (js ''a'') (numbered_label (js ''a'') i)"
  by (simp add: same_base_def numbered_label_def sanitize_eval)

text \<open>
  Three labels with the raw names \<open>a\<close>, \<open> a\<close> and \<open>a.\<close>, all sanitized to
  \<open>a\<close>.
\<close>

theorem colliding_names_suffixed_witness:
  "map snd (getUniqueExportItems
     [numbered_label (js ''a'') 0, numbered_label (js '' a'') 1, numbered_label (js ''a.'') 2])
   = [js ''a'', js ''a01'', js ''a02'']
   \<and> distinct [js ''a'', js ''a01'', js ''a02'']"
proof -
  let ?items = "[numbered_label (js ''a'') 0, numbered_label (js '' a'') 1,
    numbered_label (js ''a.'') 2]"
  have b: "js ''a'' \<noteq> []" by (simp add: js_def)
  have sb: "list_all (same_base (js ''a'')) ?items"
    by (simp add: same_base_def numbered_label_def sanitize_eval)
  have c: "card (set ?items) = 3"
    by (simp add: numbered_label_def)
  have u: "[0..<3] = [0, 1, 2]"
    by (simp add: upt_rec)
  have s1: "padStart2 (String_nat 1) = js ''01''" and s2: "padStart2 (String_nat 2) = js ''02''"
    by (simp_all add: String_nat.simps padStart2_def js_def)
  from s1 have s1': "padStart2 (String_nat (Suc 0)) = js ''01''" by simp
  from colliding_names_suffixed[OF b sb, of 1]
  have eq: "map snd (getUniqueExportItems ?items)
      = map (\<lambda>k. if k = 0 then js ''a'' else js ''a'' @ padStart2 (String_nat k))
          [0..<card (set ?items)]"
    by blast
  have "map (\<lambda>k. if k = 0 then js ''a'' else js ''a'' @ padStart2 (String_nat k))
      [0..<card (set ?items)] = [js ''a'', js ''a01'', js ''a02'']"
    unfolding c u by (simp add: s1' s2 js_def)
  with eq have "map snd (getUniqueExportItems ?items) = [js ''a'', js ''a01'', js ''a02'']"
    by simp
  moreover have "distinct [js ''a'', js ''a01'', js ''a02'']"
    by (simp add: js_def)
  ultimately show ?thesis by blast
qed

text \<open>
  The claim as stated fails from the 101st label on: \<open>padStart(2, "0")\<close> pads but does
  not cut, and the suffix of the counter 100 has three digits.
\<close>

theorem three_digit_suffix:
  "snd (getUniqueExportItems (map (numbered_label (js ''a'')) [0..<101]) ! 100) = js ''a100''"
proof -
  let ?items = "map (numbered_label (js ''a'')) [0..<101]"
  have b: "js ''a'' \<noteq> []" by (simp add: js_def)
  have sb: "list_all (same_base (js ''a'')) ?items"
    by (simp add: list_all_iff same_base_a)
  have "inj (numbered_label (js ''a''))"
    by (rule injI) (simp add: numbered_label_def)
  then have "distinct ?items"
    by (simp add: distinct_map inj_on_def)
  then have c: "card (set ?items) = 101"
    using distinct_card[of ?items] by simp
  have names: "map snd (getUniqueExportItems ?items) = map (nth_name (js ''a'')) [0..<101]"
    using getUniqueExportItems_same_base[OF b sb] c by simp
  then have len: "length (getUniqueExportItems ?items) = 101"
    using length_map[of snd "getUniqueExportItems ?items"] by simp
  have "snd (getUniqueExportItems ?items ! 100) = map snd (getUniqueExportItems ?items) ! 100"
    using len by simp
  also have "\<dots> = nth_name (js ''a'') 100"
    unfolding names by simp
  also have "\<dots> = js ''a100''"
    by (simp add: nth_name_def suffixed_def String_nat.simps padStart2_def js_def)
  finally show ?thesis .
qed


section \<open>Export\<close>

text \<open>
  The part of \<open>PrintSettings\<close> the export dialog reads; every field is optional in the
  interface. Lengths are millimetres in a number type \<open>'r\<close>.
\<close>

datatype exportFormat = Png | Aml

record 'r sides =
  top_mm :: 'r
  bottom_mm :: 'r
  left_mm :: 'r
  right_mm :: 'r

record 'r paper =
  width :: 'r
  height :: 'r

record 'r PrintSettings =
  margin :: "'r sides option"
  customPaperSize :: "'r paper option"
  exportFormat :: "exportFormat option"
  exportAsZip :: "bool option"

text \<open>
  What an export leaves behind: the files the browser is told to download. A link download
  carries a data URL, a text download its content and MIME type, a blob download an archive
  with its entries.
\<close>

datatype zipdata = PngBlob jsstring | AmlText jsstring

datatype download =
    LinkDownload jsstring jsstring
  | TextDownload jsstring jsstring jsstring
  | BlobDownload jsstring "(jsstring \<times> zipdata) list"

text \<open>\<open>htmlToImage.toPng\<close> is asynchronous and may reject.\<close>

datatype export_error = RasterError

definition COMMA :: jschar where "COMMA = 0x2C"

text \<open>\<open>url.split(",")[1] ?? ""\<close>\<close>

definition base64_of :: "jsstring \<Rightarrow> jsstring" where
  "base64_of url = (case split_on COMMA url of x # b # xs \<Rightarrow> b | _ \<Rightarrow> [])"

fun format_text :: "exportFormat \<Rightarrow> jsstring" where
  "format_text Png = js ''png''"
| "format_text Aml = js ''aml''"

text \<open>\<open>toUpperCase\<close> on ASCII text, which the two format names are.\<close>

definition toUpperCase :: "jsstring \<Rightarrow> jsstring" where
  "toUpperCase s = map (\<lambda>c. if 0x61 \<le> c \<and> c \<le> 0x7A then c - 0x20 else c) s"

text \<open>\<open>zip.file(name, data)\<close> of JSZip: an entry of that name is replaced.\<close>

fun zip_file :: "(jsstring \<times> zipdata) list \<Rightarrow> jsstring \<Rightarrow> zipdata \<Rightarrow> (jsstring \<times> zipdata) list" where
  "zip_file [] n d = [(n, d)]"
| "zip_file ((k, v) # es) n d = (if k = n then (n, d) # es else (k, v) # zip_file es n d)"

text \<open>
  \<open>saveAsImage\<close>, \<open>saveAsAmlLabels\<close> and \<open>saveAsZip\<close> rasterize one item after the
  other; a rejection ends the function with the downloads made so far. The rasterizer
  \<open>toPng\<close> and the text of an AML document, \<open>buildAmlXml\<close>, are parameters: the
  properties below are about which files are produced, not about their content. Reading
  the data URL back (\<open>fetch\<close>) and packing the archive (\<open>generateAsync\<close>) are taken to
  succeed.
\<close>

fun saveAsImage_loop ::
  "('a element \<Rightarrow> export_error + jsstring) \<Rightarrow> ('a element \<times> jsstring) list \<Rightarrow> download list
    \<Rightarrow> download list \<times> export_error option" where
  "saveAsImage_loop toPng [] downloads = (downloads, None)"
| "saveAsImage_loop toPng ((item, safeName) # uniqueItems) downloads =
     (case toPng item of
        Inl e \<Rightarrow> (downloads, Some e)
      | Inr url \<Rightarrow>
          saveAsImage_loop toPng uniqueItems
            (downloads @ [LinkDownload (safeName @ js ''.png'') url]))"

fun saveAsAmlLabels_loop ::
  "('a element \<Rightarrow> export_error + jsstring) \<Rightarrow> (jsstring \<Rightarrow> 'r \<Rightarrow> 'r \<Rightarrow> jsstring list \<Rightarrow> jsstring)
    \<Rightarrow> 'r \<Rightarrow> 'r \<Rightarrow> ('a element \<times> jsstring) list \<Rightarrow> download list
    \<Rightarrow> download list \<times> export_error option" where
  "saveAsAmlLabels_loop toPng buildAmlXml paperWidth paperHeight [] downloads = (downloads, None)"
| "saveAsAmlLabels_loop toPng buildAmlXml paperWidth paperHeight ((item, safeName) # uniqueItems)
     downloads =
     (case toPng item of
        Inl e \<Rightarrow> (downloads, Some e)
      | Inr url \<Rightarrow>
          saveAsAmlLabels_loop toPng buildAmlXml paperWidth paperHeight uniqueItems
            (downloads @ [TextDownload (safeName @ js ''.aml'')
               (buildAmlXml safeName paperWidth paperHeight [base64_of url])
               (js ''application/xml'')]))"

fun saveAsZip_loop ::
  "('a element \<Rightarrow> export_error + jsstring) \<Rightarrow> (jsstring \<Rightarrow> 'r \<Rightarrow> 'r \<Rightarrow> jsstring list \<Rightarrow> jsstring)
    \<Rightarrow> exportFormat \<Rightarrow> 'r \<Rightarrow> 'r \<Rightarrow> ('a element \<times> jsstring) list
    \<Rightarrow> (jsstring \<times> zipdata) list \<Rightarrow> export_error + (jsstring \<times> zipdata) list" where
  "saveAsZip_loop toPng buildAmlXml fmt paperWidth paperHeight [] archive = Inr archive"
| "saveAsZip_loop toPng buildAmlXml fmt paperWidth paperHeight ((item, safeName) # uniqueItems) archive =
     (case toPng item of
        Inl e \<Rightarrow> Inl e
      | Inr url \<Rightarrow>
          (if fmt = Png then
             saveAsZip_loop toPng buildAmlXml fmt paperWidth paperHeight uniqueItems
               (zip_file archive (safeName @ js ''.png'') (PngBlob url))
           else
             saveAsZip_loop toPng buildAmlXml fmt paperWidth paperHeight uniqueItems
               (zip_file archive (safeName @ js ''.aml'')
                  (AmlText (buildAmlXml safeName paperWidth paperHeight [base64_of url])))))"

definition handleExport ::
  "('a element \<Rightarrow> export_error + jsstring) \<Rightarrow> (jsstring \<Rightarrow> 'r \<Rightarrow> 'r \<Rightarrow> jsstring list \<Rightarrow> jsstring)
    \<Rightarrow> jsstring \<Rightarrow> ('r :: numeral) PrintSettings \<Rightarrow> 'a element list
    \<Rightarrow> download list \<times> export_error option" where
  "handleExport toPng buildAmlXml zipFileTypeName printSettings itemsToPrint =
     (let customPaperSize =
            (case customPaperSize printSettings of
               None \<Rightarrow> \<lparr>width = 40, height = 30\<rparr> | Some p \<Rightarrow> p);
          fmt = (case exportFormat printSettings of None \<Rightarrow> Aml | Some f \<Rightarrow> f);
          asZip = (case exportAsZip printSettings of None \<Rightarrow> False | Some z \<Rightarrow> z);
          paperWidth = width customPaperSize;
          paperHeight = height customPaperSize;
          uniqueItems = getUniqueExportItems itemsToPrint
      in
        if asZip then
          (if uniqueItems = [] then ([], None)
           else
             (case saveAsZip_loop toPng buildAmlXml fmt paperWidth paperHeight uniqueItems [] of
                Inl e \<Rightarrow> ([], Some e)
              | Inr archive \<Rightarrow>
                  ([BlobDownload
                      (toUpperCase (format_text fmt) @ js '' '' @ zipFileTypeName
                         @ js '' labels.zip'') archive], None)))
        else if fmt = Png then saveAsImage_loop toPng uniqueItems []
        else saveAsAmlLabels_loop toPng buildAmlXml paperWidth paperHeight uniqueItems [])"

text \<open>The names of the label files an export produced, archive entries included.\<close>

fun artefact_names :: "download \<Rightarrow> jsstring list" where
  "artefact_names (LinkDownload n url) = [n]"
| "artefact_names (TextDownload n content mime) = [n]"
| "artefact_names (BlobDownload n archive) = map fst archive"

definition endsWith :: "jsstring \<Rightarrow> jsstring \<Rightarrow> bool" where
  "endsWith s e \<longleftrightarrow> length e \<le> length s \<and> drop (length s - length e) s = e"

definition produces :: "jsstring \<Rightarrow> download list \<Rightarrow> bool" where
  "produces ext downloads = list_ex (\<lambda>n. endsWith n ext) (concat (map artefact_names downloads))"


lemma zip_file_fresh: "n \<notin> fst ` set archive \<Longrightarrow> zip_file archive n d = archive @ [(n, d)]"
  by (induction archive) auto

lemma saveAsZip_loop_aml:
  assumes "\<forall>item \<in> fst ` set uniqueItems. toPng item = Inr (png item)"
    and "distinct (map snd uniqueItems)"
    and "\<forall>n \<in> snd ` set uniqueItems. n @ js ''.aml'' \<notin> fst ` set archive"
  shows "saveAsZip_loop toPng buildAmlXml Aml paperWidth paperHeight uniqueItems archive
    = Inr (archive @ map (\<lambda>(item, safeName). (safeName @ js ''.aml'',
        AmlText (buildAmlXml safeName paperWidth paperHeight [base64_of (png item)])))
        uniqueItems)"
  using assms
proof (induction uniqueItems arbitrary: archive)
  case Nil
  then show ?case by simp
next
  case (Cons u uniqueItems)
  obtain item safeName where u: "u = (item, safeName)" by (cases u)
  let ?entry = "(safeName @ js ''.aml'',
    AmlText (buildAmlXml safeName paperWidth paperHeight [base64_of (png item)]))"
  from Cons.prems(1) u have ok: "toPng item = Inr (png item)" by simp
  from Cons.prems(3) u have fresh: "safeName @ js ''.aml'' \<notin> fst ` set archive" by simp
  have 1: "\<forall>item \<in> fst ` set uniqueItems. toPng item = Inr (png item)"
    using Cons.prems(1) by simp
  have 2: "distinct (map snd uniqueItems)"
    using Cons.prems(2) by simp
  have 3: "\<forall>n \<in> snd ` set uniqueItems. n @ js ''.aml'' \<notin> fst ` set (archive @ [?entry])"
    using Cons.prems(2,3) u by auto
  from Cons.IH[OF 1 2 3] ok fresh u show ?case
    by (simp add: zip_file_fresh)
qed

definition extension :: "exportFormat \<Rightarrow> jsstring" where
  "extension fmt = (if fmt = Png then js ''.png'' else js ''.aml'')"

lemma endsWith_append: "endsWith (s @ e) e"
  by (simp add: endsWith_def)

lemma endsWith_png_aml: "endsWith n (js ''.png'') \<Longrightarrow> \<not> endsWith n (js ''.aml'')"
  by (auto simp: endsWith_def js_def)

lemma zip_file_names: "fst ` set (zip_file archive n d) = insert n (fst ` set archive)"
  by (induction archive n d rule: zip_file.induct) auto

lemma saveAsZip_loop_names:
  assumes "saveAsZip_loop toPng buildAmlXml fmt paperWidth paperHeight uniqueItems archive
      = Inr archive'"
    and "\<forall>n \<in> fst ` set archive. endsWith n (extension fmt)"
  shows "\<forall>n \<in> fst ` set archive'. endsWith n (extension fmt)"
  using assms
proof (induction uniqueItems arbitrary: archive)
  case Nil
  then show ?case by simp
next
  case (Cons u uniqueItems)
  obtain item safeName where u: "u = (item, safeName)" by (cases u)
  from Cons.prems(1) u obtain url where url: "toPng item = Inr url"
    by (cases "toPng item") auto
  let ?a = "zip_file archive (safeName @ extension fmt)
    (if fmt = Png then PngBlob url
     else AmlText (buildAmlXml safeName paperWidth paperHeight [base64_of url]))"
  have run: "saveAsZip_loop toPng buildAmlXml fmt paperWidth paperHeight uniqueItems ?a
      = Inr archive'"
    using Cons.prems(1) u url by (simp add: extension_def split: if_splits)
  have "\<forall>n \<in> fst ` set ?a. endsWith n (extension fmt)"
    using Cons.prems(2) by (simp add: zip_file_names endsWith_append)
  from Cons.IH[OF run this] show ?case .
qed

lemma saveAsImage_loop_names:
  assumes "\<forall>n \<in> set (concat (map artefact_names downloads)). endsWith n (js ''.png'')"
  shows "\<forall>n \<in> set (concat (map artefact_names (fst (saveAsImage_loop toPng uniqueItems downloads)))).
    endsWith n (js ''.png'')"
  using assms
proof (induction uniqueItems arbitrary: downloads)
  case Nil
  then show ?case by simp
next
  case (Cons u uniqueItems)
  obtain item safeName where u: "u = (item, safeName)" by (cases u)
  show ?case
  proof (cases "toPng item")
    case (Inl e)
    with Cons.prems u show ?thesis by simp
  next
    case (Inr url)
    have "\<forall>n \<in> set (concat (map artefact_names
        (downloads @ [LinkDownload (safeName @ js ''.png'') url]))). endsWith n (js ''.png'')"
      using Cons.prems by (auto simp: endsWith_append)
    from Cons.IH[OF this] Inr u show ?thesis by simp
  qed
qed

lemma saveAsAmlLabels_loop_names:
  assumes "\<forall>n \<in> set (concat (map artefact_names downloads)). endsWith n (js ''.aml'')"
  shows "\<forall>n \<in> set (concat (map artefact_names
      (fst (saveAsAmlLabels_loop toPng buildAmlXml paperWidth paperHeight uniqueItems downloads)))).
    endsWith n (js ''.aml'')"
  using assms
proof (induction uniqueItems arbitrary: downloads)
  case Nil
  then show ?case by simp
next
  case (Cons u uniqueItems)
  obtain item safeName where u: "u = (item, safeName)" by (cases u)
  show ?case
  proof (cases "toPng item")
    case (Inl e)
    with Cons.prems u show ?thesis by simp
  next
    case (Inr url)
    have "\<forall>n \<in> set (concat (map artefact_names
        (downloads @ [TextDownload (safeName @ js ''.aml'')
           (buildAmlXml safeName paperWidth paperHeight [base64_of url])
           (js ''application/xml'')]))). endsWith n (js ''.aml'')"
      using Cons.prems by (auto simp: endsWith_append)
    from Cons.IH[OF this] Inr u show ?thesis by simp
  qed
qed

definition effective_format :: "'r PrintSettings \<Rightarrow> exportFormat" where
  "effective_format printSettings =
     (case exportFormat printSettings of None \<Rightarrow> Aml | Some f \<Rightarrow> f)"

lemma handleExport_names:
  "\<forall>n \<in> set (concat (map artefact_names
      (fst (handleExport toPng buildAmlXml zipFileTypeName printSettings itemsToPrint)))).
    endsWith n (extension (effective_format printSettings))"
proof -
  let ?fmt = "effective_format printSettings"
  let ?w = "width (case customPaperSize printSettings of
    None \<Rightarrow> \<lparr>width = 40, height = 30\<rparr> | Some p \<Rightarrow> p)"
  let ?h = "height (case customPaperSize printSettings of
    None \<Rightarrow> \<lparr>width = 40, height = 30\<rparr> | Some p \<Rightarrow> p)"
  let ?u = "getUniqueExportItems itemsToPrint"
  consider (zip) "(case exportAsZip printSettings of None \<Rightarrow> False | Some z \<Rightarrow> z)"
    | (png) "\<not> (case exportAsZip printSettings of None \<Rightarrow> False | Some z \<Rightarrow> z)" "?fmt = Png"
    | (aml) "\<not> (case exportAsZip printSettings of None \<Rightarrow> False | Some z \<Rightarrow> z)" "?fmt \<noteq> Png"
    by blast
  then show ?thesis
  proof cases
    case zip
    show ?thesis
    proof (cases "saveAsZip_loop toPng buildAmlXml ?fmt ?w ?h ?u []")
      case (Inl e)
      with zip show ?thesis
        by (simp add: handleExport_def Let_def effective_format_def)
    next
      case (Inr archive)
      from saveAsZip_loop_names[OF Inr] have "\<forall>n \<in> fst ` set archive. endsWith n (extension ?fmt)"
        by simp
      with zip Inr show ?thesis
        by (simp add: handleExport_def Let_def effective_format_def)
    qed
  next
    case png
    with saveAsImage_loop_names[of "[]" toPng ?u] show ?thesis
      by (simp add: handleExport_def Let_def effective_format_def extension_def)
  next
    case aml
    with saveAsAmlLabels_loop_names[of "[]" toPng buildAmlXml ?w ?h ?u] show ?thesis
      by (simp add: handleExport_def Let_def effective_format_def extension_def)
  qed
qed

lemma handleExport_exclusive:
  "\<not> (produces (js ''.png'') (fst (handleExport toPng buildAmlXml zipFileTypeName printSettings
          itemsToPrint))
      \<and> produces (js ''.aml'') (fst (handleExport toPng buildAmlXml zipFileTypeName printSettings
          itemsToPrint)))"
proof
  let ?names = "set (concat (map artefact_names
    (fst (handleExport toPng buildAmlXml zipFileTypeName printSettings itemsToPrint))))"
  assume "produces (js ''.png'') (fst (handleExport toPng buildAmlXml zipFileTypeName
      printSettings itemsToPrint))
    \<and> produces (js ''.aml'') (fst (handleExport toPng buildAmlXml zipFileTypeName printSettings
      itemsToPrint))"
  then obtain n m where n: "n \<in> ?names" "endsWith n (js ''.png'')"
    and m: "m \<in> ?names" "endsWith m (js ''.aml'')"
    by (auto simp: produces_def list_ex_iff)
  from handleExport_names[of toPng buildAmlXml zipFileTypeName printSettings itemsToPrint] n(1) m(1)
  have "endsWith n (extension (effective_format printSettings))"
    "endsWith m (extension (effective_format printSettings))"
    by blast+
  with n(2) m(2) show False
    using endsWith_png_aml by (auto simp: extension_def split: if_splits)
qed

lemma getUniqueExportItems_subset_aux:
  "fst ` set (export_loop itemsToPrint hasPrinted usedNames uniqueItems idx)
    \<subseteq> set itemsToPrint \<union> fst ` set uniqueItems"
proof (induction itemsToPrint arbitrary: hasPrinted usedNames uniqueItems idx)
  case Nil
  show ?case by simp
next
  case (Cons item itemsToPrint)
  show ?case
  proof (cases "list_ex (isEqualNode item) hasPrinted")
    case True
    with Cons.IH[of hasPrinted usedNames uniqueItems idx] show ?thesis by auto
  next
    case False
    then show ?thesis
      using Cons.IH by (simp add: Let_def) fastforce
  qed
qed

lemma getUniqueExportItems_subset:
  "fst ` set (getUniqueExportItems itemsToPrint) \<subseteq> set itemsToPrint"
  using getUniqueExportItems_subset_aux[of itemsToPrint "[]" "[]" "[]" 1]
  by (simp add: getUniqueExportItems_def)

text \<open>
  Claim C9, as amended. An export with format AML into an archive, of items that all
  rasterize and of which at least one is unique, downloads exactly one archive named
  \<open>AML <type> labels.zip\<close>; it has one entry per unique item, each named with the item's
  name and \<open>.aml\<close>, none with \<open>.png\<close>. And no export at all, whatever its settings
  and items, produces both a \<open>.png\<close> and an \<open>.aml\<close> file.
\<close>

theorem aml_zip_export:
  assumes "exportFormat printSettings = Some Aml" "exportAsZip printSettings = Some True"
    and "\<forall>item \<in> set itemsToPrint. toPng item = Inr (png item)"
    and "getUniqueExportItems itemsToPrint \<noteq> []"
    and "paperSize = (case customPaperSize printSettings of
      None \<Rightarrow> \<lparr>width = 40, height = 30\<rparr> | Some p \<Rightarrow> p)"
    and "archive = map (\<lambda>(item, safeName). (safeName @ js ''.aml'',
        AmlText (buildAmlXml safeName (width paperSize) (height paperSize) [base64_of (png item)])))
      (getUniqueExportItems itemsToPrint)"
  shows "handleExport toPng buildAmlXml zipFileTypeName printSettings itemsToPrint
      = ([BlobDownload (js ''AML '' @ zipFileTypeName @ js '' labels.zip'') archive], None)
    \<and> length archive = length (getUniqueExportItems itemsToPrint)
    \<and> list_all (\<lambda>(n, d). endsWith n (js ''.aml'') \<and> \<not> endsWith n (js ''.png'')) archive
    \<and> \<not> (produces (js ''.png'') (fst (handleExport toPng' buildAmlXml' zipFileTypeName'
            printSettings' itemsToPrint'))
        \<and> produces (js ''.aml'') (fst (handleExport toPng' buildAmlXml' zipFileTypeName'
            printSettings' itemsToPrint')))"
proof -
  let ?u = "getUniqueExportItems itemsToPrint"
  have ok: "\<forall>item \<in> fst ` set ?u. toPng item = Inr (png item)"
    using assms(3) getUniqueExportItems_subset[of itemsToPrint] by blast
  have run: "saveAsZip_loop toPng buildAmlXml Aml (width paperSize) (height paperSize) ?u []
      = Inr archive"
    using saveAsZip_loop_aml[OF ok getUniqueExportItems_distinct, of "[]"] assms(6) by simp
  have up: "toUpperCase (format_text Aml) = js ''AML''"
    by (simp add: toUpperCase_def js_def)
  have 1: "handleExport toPng buildAmlXml zipFileTypeName printSettings itemsToPrint
      = ([BlobDownload (js ''AML '' @ zipFileTypeName @ js '' labels.zip'') archive], None)"
    using assms(1,2,4) run up unfolding handleExport_def assms(5)[symmetric]
    by (simp add: Let_def js_def)
  have 2: "length archive = length ?u"
    by (simp add: assms(6))
  have "endsWith (n @ js ''.aml'') (js ''.aml'') \<and> \<not> endsWith (n @ js ''.aml'') (js ''.png'')"
    for n
    using endsWith_png_aml[of "n @ js ''.aml''"] endsWith_append[of n "js ''.aml''"] by blast
  then have 3: "list_all (\<lambda>(n, d). endsWith n (js ''.aml'') \<and> \<not> endsWith n (js ''.png''))
      archive"
    by (auto simp: assms(6) list_all_iff)
  from 1 2 3 handleExport_exclusive show ?thesis by blast
qed


text \<open>
  A concrete setting for the instances below: a rasterizer that yields one fixed image, a
  stand-in for the document text, and the settings of an AML export into an archive.
\<close>

definition sample_toPng :: "nat element \<Rightarrow> export_error + jsstring" where
  "sample_toPng item = Inr (js ''data:image/png;base64,QUJD'')"

definition sample_buildAmlXml :: "jsstring \<Rightarrow> int \<Rightarrow> int \<Rightarrow> jsstring list \<Rightarrow> jsstring" where
  "sample_buildAmlXml name widthMm heightMm base64Pages = concat base64Pages"

definition aml_zip_settings :: "int PrintSettings" where
  "aml_zip_settings =
     \<lparr>margin = None, customPaperSize = None, exportFormat = Some Aml, exportAsZip = Some True\<rparr>"

lemma three_labels_unique:
  "getUniqueExportItems
     [numbered_label (js ''a'') 0, numbered_label (js '' a'') 1, numbered_label (js ''a.'') 2]
   = [(numbered_label (js ''a'') 0, js ''a''), (numbered_label (js '' a'') 1, js ''a01''),
      (numbered_label (js ''a.'') 2, js ''a02'')]"
  by (simp add: getUniqueExportItems_def numbered_label_def isEqualNode_def or_else_def
      unique_name.simps suffixed_def padStart2_def String_nat.simps sanitize_eval Let_def)

text \<open>The scenario of three labels, which here collide on the name \<open>a\<close>.\<close>

theorem aml_zip_export_witness:
  "handleExport sample_toPng sample_buildAmlXml (js ''spool'') aml_zip_settings
     [numbered_label (js ''a'') 0, numbered_label (js '' a'') 1, numbered_label (js ''a.'') 2]
   = ([BlobDownload (js ''AML spool labels.zip'')
        [(js ''a.aml'', AmlText (js ''QUJD'')), (js ''a01.aml'', AmlText (js ''QUJD'')),
         (js ''a02.aml'', AmlText (js ''QUJD''))]], None)"
proof -
  let ?items = "[numbered_label (js ''a'') 0, numbered_label (js '' a'') 1,
    numbered_label (js ''a.'') 2]"
  have 1: "exportFormat aml_zip_settings = Some Aml" "exportAsZip aml_zip_settings = Some True"
    by (simp_all add: aml_zip_settings_def)
  have 2: "\<forall>item \<in> set ?items. sample_toPng item = Inr (js ''data:image/png;base64,QUJD'')"
    by (simp add: sample_toPng_def)
  have 3: "getUniqueExportItems ?items \<noteq> []"
    unfolding three_labels_unique by simp
  have 4: "\<lparr>width = 40, height = 30\<rparr> = (case customPaperSize aml_zip_settings of
      None \<Rightarrow> \<lparr>width = 40, height = 30\<rparr> | Some p \<Rightarrow> p)"
    by (simp add: aml_zip_settings_def)
  have b: "base64_of (js ''data:image/png;base64,QUJD'') = js ''QUJD''"
    by (simp add: base64_of_def js_def COMMA_def)
  have 5: "[(js ''a.aml'', AmlText (js ''QUJD'')), (js ''a01.aml'', AmlText (js ''QUJD'')),
         (js ''a02.aml'', AmlText (js ''QUJD''))]
    = map (\<lambda>(item, safeName). (safeName @ js ''.aml'',
        AmlText (sample_buildAmlXml safeName (width \<lparr>width = 40, height = 30\<rparr>)
          (height \<lparr>width = 40, height = 30\<rparr>)
          [base64_of ((\<lambda>item. js ''data:image/png;base64,QUJD'') item)])))
      (getUniqueExportItems ?items)"
    unfolding three_labels_unique by (simp add: b sample_buildAmlXml_def) (simp add: js_def)
  from aml_zip_export[where png = "\<lambda>item. js ''data:image/png;base64,QUJD''"
      and toPng = sample_toPng and buildAmlXml = sample_buildAmlXml
      and zipFileTypeName = "js ''spool''", OF 1 2 3 4 5]
  have "handleExport sample_toPng sample_buildAmlXml (js ''spool'') aml_zip_settings ?items
    = ([BlobDownload (js ''AML '' @ js ''spool'' @ js '' labels.zip'')
        [(js ''a.aml'', AmlText (js ''QUJD'')), (js ''a01.aml'', AmlText (js ''QUJD'')),
         (js ''a02.aml'', AmlText (js ''QUJD''))]], None)"
    by blast
  moreover have "js ''AML '' @ js ''spool'' @ js '' labels.zip'' = js ''AML spool labels.zip''"
    by (simp add: js_def)
  ultimately show ?thesis by simp
qed

text \<open>
  The claim as stated fails for no items: \<open>saveAsZip\<close> returns before it creates the
  archive, and nothing is downloaded.
\<close>

theorem empty_zip_export:
  "handleExport sample_toPng sample_buildAmlXml (js ''spool'') aml_zip_settings [] = ([], None)"
  by (simp add: handleExport_def aml_zip_settings_def getUniqueExportItems_def)


section \<open>Label layout\<close>

text \<open>
  The part of \<open>QRCodePrintSettings\<close> that the header budget reads. Lengths are
  JavaScript numbers in the code and elements of an ordered field here; the budget uses
  subtraction and \<open>Math.max\<close> only.
\<close>

datatype showQRCodeMode = No | Simple | WithIcon

record 'r QRCodePrintSettings =
  showQRCodeMode :: "showQRCodeMode option"
  printSettings :: "'r PrintSettings"

text \<open>
  The four constants \<open>containerPaddingMm\<close>, \<open>minMainHeightMm\<close>,
  \<open>availableContentHeightMm\<close> and \<open>maxHeaderHeightMm\<close>, as a function of what they are
  computed from.
\<close>

definition header_budget :: "'r \<Rightarrow> 'r \<Rightarrow> 'r \<Rightarrow> 'r \<Rightarrow> showQRCodeMode \<Rightarrow> ('r :: linordered_field)" where
  "header_budget paperHeight topMargin bottomMargin containerPaddingMm mode =
     (let minMainHeightMm = (if mode = No then 0 else 8);
          availableContentHeightMm =
            max 0 (paperHeight - topMargin - bottomMargin - containerPaddingMm)
      in max 0 (availableContentHeightMm - minMainHeightMm))"

text \<open>
  The same with the defaults of the dialog: paper height 30, margins 0, the QR code shown
  with its icon, and the container padding of 1.2 mm.
\<close>

definition maxHeaderHeightMm :: "('r :: linordered_field) QRCodePrintSettings \<Rightarrow> 'r" where
  "maxHeaderHeightMm settings =
     (let mode = (case showQRCodeMode settings of None \<Rightarrow> WithIcon | Some m \<Rightarrow> m);
          paperHeight =
            (case customPaperSize (printSettings settings) of None \<Rightarrow> 30 | Some p \<Rightarrow> height p);
          topMargin =
            (case margin (printSettings settings) of None \<Rightarrow> 0 | Some m \<Rightarrow> top_mm m);
          bottomMargin =
            (case margin (printSettings settings) of None \<Rightarrow> 0 | Some m \<Rightarrow> bottom_mm m)
      in header_budget paperHeight topMargin bottomMargin (12 / 10) mode)"

lemma header_budget_eq:
  "header_budget p t b c m = max 0 (p - t - b - c - (if m = No then 0 else 8))"
  by (simp add: header_budget_def Let_def max_def)

lemma header_budget_nonneg: "0 \<le> header_budget p t b c m"
  by (simp add: header_budget_def Let_def)

text \<open>
  Claim C7. The header height budget is the larger of 0 and the paper height minus top
  margin, bottom margin, container padding and the minimal height of the main row, which is
  0 when the QR code is not shown and 8 mm otherwise; it is never negative. This holds for
  the computation on any heights, margins and padding, and for the dialog with its
  defaults and its padding of 1.2 mm.
\<close>

theorem header_budget_formula:
  "header_budget paperHeight topMargin bottomMargin containerPaddingMm mode
     = max 0 (paperHeight - topMargin - bottomMargin - containerPaddingMm
              - (if mode = No then 0 else 8))
   \<and> 0 \<le> header_budget paperHeight topMargin bottomMargin containerPaddingMm mode
   \<and> maxHeaderHeightMm settings
     = max 0 ((case customPaperSize (printSettings settings) of None \<Rightarrow> 30 | Some p \<Rightarrow> height p)
              - (case margin (printSettings settings) of None \<Rightarrow> 0 | Some m \<Rightarrow> top_mm m)
              - (case margin (printSettings settings) of None \<Rightarrow> 0 | Some m \<Rightarrow> bottom_mm m)
              - 12 / 10
              - (if showQRCodeMode settings = Some No then 0 else 8))
   \<and> 0 \<le> maxHeaderHeightMm settings"
proof -
  have "(case showQRCodeMode settings of None \<Rightarrow> WithIcon | Some m \<Rightarrow> m) = No
      \<longleftrightarrow> showQRCodeMode settings = Some No"
    by (cases "showQRCodeMode settings") simp_all
  then have "maxHeaderHeightMm settings
     = max 0 ((case customPaperSize (printSettings settings) of None \<Rightarrow> 30 | Some p \<Rightarrow> height p)
              - (case margin (printSettings settings) of None \<Rightarrow> 0 | Some m \<Rightarrow> top_mm m)
              - (case margin (printSettings settings) of None \<Rightarrow> 0 | Some m \<Rightarrow> bottom_mm m)
              - 12 / 10
              - (if showQRCodeMode settings = Some No then 0 else 8))"
    by (simp only: maxHeaderHeightMm_def Let_def header_budget_eq)
  moreover have "0 \<le> maxHeaderHeightMm settings"
    by (simp add: maxHeaderHeightMm_def Let_def header_budget_nonneg)
  ultimately show ?thesis using header_budget_eq header_budget_nonneg by blast
qed

lemma header_budget_example:
  "maxHeaderHeightMm \<lparr>showQRCodeMode = None, printSettings =
      \<lparr>margin = None, customPaperSize = None, exportFormat = None, exportAsZip = None\<rparr>\<rparr>
    = (104 / 5 :: rat)"
  by (simp add: maxHeaderHeightMm_def header_budget_def)


section \<open>Title auto-fit\<close>
















section \<open>Presets\<close>

text \<open>
  The preset dialogs keep presets as JavaScript objects and edit them in place, so this
  part of the model has a store: an object is a list of properties at an address, and a
  property holds a scalar or the address of another object. A preset is an object with a
  \<open>labelSettings\<close> object, which has a \<open>printSettings\<close> object, which has the
  \<open>id\<close>, the \<open>name\<close> and further objects such as \<open>margin\<close>. A list of presets is a
  list of addresses. The model follows \<open>SpoolQRCodeExportDialog\<close>, where the current type
  is \<open>spool\<close> and the other type \<open>filament\<close>; the dialog for filaments is its mirror
  image.
\<close>

datatype 'r hval = HUndefined | HNull | HBool bool | HNum 'r | HStr jsstring | HRef nat

type_synonym 'r hobj = "(jsstring \<times> 'r hval) list"
type_synonym 'r heap = "'r hobj list"

text \<open>\<open>obj[k]\<close>, \<open>obj[k] = v\<close>, and a new object.\<close>

definition h_get :: "'r heap \<Rightarrow> nat \<Rightarrow> jsstring \<Rightarrow> 'r hval" where
  "h_get h a k =
     (if a < length h then (case map_of (h ! a) k of None \<Rightarrow> HUndefined | Some v \<Rightarrow> v)
      else HUndefined)"

fun obj_set :: "'r hobj \<Rightarrow> jsstring \<Rightarrow> 'r hval \<Rightarrow> 'r hobj" where
  "obj_set [] k v = [(k, v)]"
| "obj_set ((k', v') # rest) k v =
     (if k' = k then (k, v) # rest else (k', v') # obj_set rest k v)"

definition h_set :: "'r heap \<Rightarrow> nat \<Rightarrow> jsstring \<Rightarrow> 'r hval \<Rightarrow> 'r heap" where
  "h_set h a k v = (if a < length h then h[a := obj_set (h ! a) k v] else h)"

definition h_alloc :: "'r heap \<Rightarrow> 'r hobj \<Rightarrow> 'r heap \<times> nat" where
  "h_alloc h obj = (h @ [obj], length h)"

definition h_obj :: "'r heap \<Rightarrow> nat \<Rightarrow> 'r hobj" where
  "h_obj h a = (if a < length h then h ! a else [])"

text \<open>
  A property that has to be an object; \<open>get_prop\<close> is \<open>v[k]\<close> for any value \<open>v\<close>,
  a TypeError on undefined and null; \<open>spread\<close> gives the properties that \<open>{...v}\<close>
  copies.
\<close>

definition get_ref :: "'r heap \<Rightarrow> nat \<Rightarrow> jsstring \<Rightarrow> jserror + nat" where
  "get_ref h a k = (case h_get h a k of HRef b \<Rightarrow> Inr b | _ \<Rightarrow> Inl TypeError)"

definition get_prop :: "'r heap \<Rightarrow> 'r hval \<Rightarrow> jsstring \<Rightarrow> jserror + 'r hval" where
  "get_prop h v k =
     (case v of
        HRef a \<Rightarrow> Inr (h_get h a k)
      | HUndefined \<Rightarrow> Inl TypeError
      | HNull \<Rightarrow> Inl TypeError
      | _ \<Rightarrow> Inr HUndefined)"

definition spread :: "'r heap \<Rightarrow> 'r hval \<Rightarrow> 'r hobj" where
  "spread h v = (case v of HRef a \<Rightarrow> h_obj h a | _ \<Rightarrow> [])"


definition COLON :: jschar where "COLON = 0x3A"

definition currentPresetType :: jsstring where "currentPresetType = js ''spool''"
definition otherPresetType :: jsstring where "otherPresetType = js ''filament''"

text \<open>\<open>toPresetValue\<close> and \<open>parsePresetValue\<close>: the selection is \<open>type:id\<close>.\<close>

definition toPresetValue :: "jsstring \<Rightarrow> jsstring \<Rightarrow> jsstring" where
  "toPresetValue ptype pid = ptype @ COLON # pid"

definition parsePresetValue :: "jsstring option \<Rightarrow> (jsstring \<times> jsstring) option" where
  "parsePresetValue v =
     (case v of
        None \<Rightarrow> None
      | Some s \<Rightarrow>
          (if s = [] then None
           else
             (case find_first [COLON] s of
                None \<Rightarrow> Some (currentPresetType, s)
              | Some (ptype, pid) \<Rightarrow>
                  (if (ptype = currentPresetType \<or> ptype = otherPresetType) \<and> pid \<noteq> []
                   then Some (ptype, pid) else None))))"

text \<open>The two pieces of component state that the preset functions set.\<close>

record dialog_state =
  localCurrentPresets :: "nat list option"
  selectedPresetState :: "jsstring option"

text \<open>\<open>preset.labelSettings.printSettings.id\<close>\<close>

definition preset_id :: "'r heap \<Rightarrow> nat \<Rightarrow> jserror + 'r hval" where
  "preset_id h preset =
     (case get_prop h (h_get h preset (js ''labelSettings'')) (js ''printSettings'') of
        Inl e \<Rightarrow> Inl e
      | Inr ps \<Rightarrow> get_prop h ps (js ''id''))"

text \<open>
  The object expression
  \<open>{...p, labelSettings: {...p.labelSettings, printSettings: {...p.labelSettings.printSettings, overrides}}}\<close>:
  three new objects. Whatever the properties of the three old objects refer to is shared.
\<close>

definition copy_preset ::
  "'r heap \<Rightarrow> nat \<Rightarrow> (jsstring \<times> 'r hval) list \<Rightarrow> jserror + 'r heap \<times> nat" where
  "copy_preset h preset overrides =
     (let ls = h_get h preset (js ''labelSettings'') in
      case get_prop h ls (js ''printSettings'') of
        Inl e \<Rightarrow> Inl e
      | Inr ps \<Rightarrow>
          (let (h1, ps') = h_alloc h (fold (\<lambda>(k, v) obj. obj_set obj k v) overrides (spread h ps));
               (h2, ls') = h_alloc h1 (obj_set (spread h ls) (js ''printSettings'') (HRef ps'));
               (h3, preset') = h_alloc h2 (obj_set (h_obj h preset) (js ''labelSettings'') (HRef ls'))
           in Inr (h3, preset')))"

text \<open>
  \<open>promotePresetToCurrentType\<close>; \<open>uuid\<close> is what \<open>uuidv4()\<close> returns, and
  \<open>currentPresets\<close> the list of the render whose handler is running.
\<close>

definition promotePresetToCurrentType ::
  "jsstring \<Rightarrow> nat list option \<Rightarrow> 'r heap \<Rightarrow> dialog_state \<Rightarrow> nat
    \<Rightarrow> jserror + 'r heap \<times> dialog_state" where
  "promotePresetToCurrentType uuid currentPresets h st preset =
     (case currentPresets of
        None \<Rightarrow> Inr (h, st)
      | Some presets \<Rightarrow>
          (case copy_preset h preset [(js ''id'', HStr uuid)] of
             Inl e \<Rightarrow> Inl e
           | Inr (h', promotedPreset) \<Rightarrow>
               Inr (h', st\<lparr>localCurrentPresets := Some (presets @ [promotedPreset]),
                          selectedPresetState := Some (toPresetValue currentPresetType uuid)\<rparr>)))"

text \<open>
  \<open>updateCurrentPreset\<close>: the \<open>map\<close> over the current presets with its flag
  \<open>foundPreset\<close>, then the function.
\<close>

fun map_presets ::
  "'r heap \<Rightarrow> 'r hval \<Rightarrow> nat \<Rightarrow> nat list \<Rightarrow> jserror + nat list \<times> bool" where
  "map_presets h wanted newSettings [] = Inr ([], False)"
| "map_presets h wanted newSettings (p # ps) =
     (case preset_id h p of
        Inl e \<Rightarrow> Inl e
      | Inr i \<Rightarrow>
          (case map_presets h wanted newSettings ps of
             Inl e \<Rightarrow> Inl e
           | Inr (rest, found) \<Rightarrow>
               (if i = wanted then Inr (newSettings # rest, True) else Inr (p # rest, found))))"

definition updateCurrentPreset ::
  "jsstring \<Rightarrow> nat list option \<Rightarrow> 'r heap \<Rightarrow> dialog_state \<Rightarrow> nat
    \<Rightarrow> jserror + 'r heap \<times> dialog_state" where
  "updateCurrentPreset uuid currentPresets h st newSettings =
     (case currentPresets of
        None \<Rightarrow> Inr (h, st)
      | Some presets \<Rightarrow>
          (case parsePresetValue (selectedPresetState st) of
             None \<Rightarrow> promotePresetToCurrentType uuid currentPresets h st newSettings
           | Some (ptype, pid) \<Rightarrow>
               (if ptype \<noteq> currentPresetType
                then promotePresetToCurrentType uuid currentPresets h st newSettings
                else
                  (case map_presets h (HStr pid) newSettings presets of
                     Inl e \<Rightarrow> Inl e
                   | Inr (nextPresets, foundPreset) \<Rightarrow>
                       (if foundPreset
                        then Inr (h, st\<lparr>localCurrentPresets := Some nextPresets\<rparr>)
                        else promotePresetToCurrentType uuid currentPresets h
                               (st\<lparr>localCurrentPresets := Some nextPresets\<rparr>) newSettings)))))"

text \<open>
  The render with a selection of the other type: \<open>otherPresets.find(...)\<close> and the copy
  that becomes \<open>curPreset\<close>. \<open>render_imported\<close> is None where the render takes another
  branch (no list yet, an empty list, a selection of the current type, or no preset of that
  id in the other list).
\<close>

fun find_preset :: "'r heap \<Rightarrow> 'r hval \<Rightarrow> nat list \<Rightarrow> jserror + nat option" where
  "find_preset h wanted [] = Inr None"
| "find_preset h wanted (p # ps) =
     (case preset_id h p of
        Inl e \<Rightarrow> Inl e
      | Inr i \<Rightarrow> (if i = wanted then Inr (Some p) else find_preset h wanted ps))"

definition import_preset :: "'r heap \<Rightarrow> nat list \<Rightarrow> jsstring \<Rightarrow> jserror + ('r heap \<times> nat) option" where
  "import_preset h otherPresets pid =
     (case find_preset h (HStr pid) otherPresets of
        Inl e \<Rightarrow> Inl e
      | Inr None \<Rightarrow> Inr None
      | Inr (Some importedPreset) \<Rightarrow>
          (case copy_preset h importedPreset [] of
             Inl e \<Rightarrow> Inl e
           | Inr r \<Rightarrow> Inr (Some r)))"


definition setPrintSettings ::
  "jsstring \<Rightarrow> nat list option \<Rightarrow> 'r heap \<Rightarrow> dialog_state \<Rightarrow> nat \<Rightarrow> nat
    \<Rightarrow> jserror + 'r heap \<times> dialog_state" where
  "setPrintSettings uuid currentPresets h st curPreset newSettings =
     updateCurrentPreset uuid currentPresets
       (h_set h curPreset (js ''labelSettings'') (HRef newSettings)) st curPreset"


text \<open>
  The switch for the title of the QR code dialog:
  \<open>printSettings.showTitle = checked; setPrintSettings(printSettings)\<close>.
\<close>

definition on_show_title_change ::
  "jsstring \<Rightarrow> nat list option \<Rightarrow> 'r heap \<Rightarrow> dialog_state \<Rightarrow> nat \<Rightarrow> bool
    \<Rightarrow> jserror + 'r heap \<times> dialog_state" where
  "on_show_title_change uuid currentPresets h st curPreset checked =
     (case get_ref h curPreset (js ''labelSettings'') of
        Inl e \<Rightarrow> Inl e
      | Inr labelSettings \<Rightarrow>
          setPrintSettings uuid currentPresets
            (h_set h labelSettings (js ''showTitle'') (HBool checked)) st curPreset labelSettings)"

text \<open>A render with an imported preset, followed by one of the two edits.\<close>

definition render_imported ::
  "nat list option \<Rightarrow> nat list \<Rightarrow> 'r heap \<Rightarrow> dialog_state \<Rightarrow> jserror + ('r heap \<times> nat) option" where
  "render_imported currentPresets otherPresets h st =
     (case currentPresets of
        None \<Rightarrow> Inr None
      | Some [] \<Rightarrow> Inr None
      | Some (p # ps) \<Rightarrow>
          (case parsePresetValue (selectedPresetState st) of
             None \<Rightarrow> Inr None
           | Some (ptype, pid) \<Rightarrow>
               (if ptype = otherPresetType then import_preset h otherPresets pid else Inr None)))"





definition edit_imported_show_title ::
  "jsstring \<Rightarrow> nat list option \<Rightarrow> nat list \<Rightarrow> 'r heap \<Rightarrow> dialog_state \<Rightarrow> bool
    \<Rightarrow> jserror + 'r heap \<times> dialog_state" where
  "edit_imported_show_title uuid currentPresets otherPresets h st checked =
     (case render_imported currentPresets otherPresets h st of
        Inl e \<Rightarrow> Inl e
      | Inr None \<Rightarrow> Inr (h, st)
      | Inr (Some (h', curPreset)) \<Rightarrow>
          on_show_title_change uuid currentPresets h' st curPreset checked)"

text \<open>
  Copying and promoting only add objects, and the promoted preset carries the new id. An
  edit of a property of \<open>labelSettings\<close> writes to the copies alone: every object that was
  in the store before the render, the presets of the other list among them, is as before.
\<close>

lemma take_h_set: "n \<le> a \<Longrightarrow> take n (h_set h a k v) = take n h"
  by (simp add: h_set_def)

lemma length_h_set [simp]: "length (h_set h a k v) = length h"
  by (simp add: h_set_def)

lemma obj_set_lookup [simp]: "map_of (obj_set obj k v) k = Some v"
  by (induction obj) auto

lemma copy_preset_result:
  assumes "copy_preset h preset overrides = Inr (h', preset')"
  obtains o1 o2 o3 where "h' = h @ [o1, o2, obj_set o3 (js ''labelSettings'') (HRef (length h + 1))]"
    and "preset' = length h + 2"
  using assms
  by (auto simp: copy_preset_def h_alloc_def Let_def split: sum.splits)

lemma copy_preset_extends:
  assumes "copy_preset h preset overrides = Inr (h', preset')"
  shows "take (length h) h' = h" and "length h' = length h + 3" and "preset' = length h + 2"
    and "get_ref h' preset' (js ''labelSettings'') = Inr (length h + 1)"
proof -
  from assms obtain o1 o2 o3 where
    h': "h' = h @ [o1, o2, obj_set o3 (js ''labelSettings'') (HRef (length h + 1))]"
    and p': "preset' = length h + 2"
    by (rule copy_preset_result)
  show "take (length h) h' = h" "length h' = length h + 3" "preset' = length h + 2"
    by (simp_all add: h' p')
  show "get_ref h' preset' (js ''labelSettings'') = Inr (length h + 1)"
    by (simp add: h' p' get_ref_def h_get_def nth_append)
qed

lemma promote_extends:
  assumes "promotePresetToCurrentType uuid (Some presets) h st preset = Inr (h', st')"
  shows "take (length h) h' = h \<and> length h \<le> length h'
    \<and> localCurrentPresets st' = Some (presets @ [length h + 2])
    \<and> selectedPresetState st' = Some (toPresetValue currentPresetType uuid)"
proof -
  from assms obtain p' where c: "copy_preset h preset [(js ''id'', HStr uuid)] = Inr (h', p')"
    and st': "st' = st\<lparr>localCurrentPresets := Some (presets @ [p']),
      selectedPresetState := Some (toPresetValue currentPresetType uuid)\<rparr>"
    by (auto simp: promotePresetToCurrentType_def split: sum.splits)
  from copy_preset_extends[OF c] st' show ?thesis by simp
qed

lemma fold_obj_set_id:
  "map_of (fold (\<lambda>(k, v) obj. obj_set obj k v) [(js ''id'', HStr uuid)] obj) (js ''id'')
    = Some (HStr uuid)"
  by simp

lemma promoted_id:
  assumes "copy_preset h preset [(js ''id'', HStr uuid)] = Inr (h', preset')"
  shows "preset_id h' preset' = Inr (HStr uuid)"
proof -
  from assms obtain ls ps where
    h': "h' = h @ [fold (\<lambda>(k, v) obj. obj_set obj k v) [(js ''id'', HStr uuid)] ps,
        obj_set ls (js ''printSettings'') (HRef (length h)),
        obj_set (h_obj h preset) (js ''labelSettings'') (HRef (length h + 1))]"
    and p': "preset' = length h + 2"
    by (auto simp: copy_preset_def h_alloc_def Let_def split: sum.splits)
  show ?thesis
    by (simp add: h' p' preset_id_def get_prop_def h_get_def nth_append)
qed

lemma updateCurrentPreset_extends:
  assumes "updateCurrentPreset uuid currentPresets h st p = Inr (h', st')"
  shows "take (length h) h' = h"
proof (cases currentPresets)
  case None
  with assms show ?thesis by (simp add: updateCurrentPreset_def)
next
  case (Some presets)
  have pr: "take (length h) h' = h"
    if "promotePresetToCurrentType uuid (Some presets) h s p = Inr (h', st')" for s
    using promote_extends[OF that] by simp
  from assms Some show ?thesis
    by (auto simp: updateCurrentPreset_def split: option.splits if_splits sum.splits prod.splits
        intro: pr)
qed

lemma show_title_keeps_foreign:
  assumes "edit_imported_show_title uuid currentPresets otherPresets h st checked = Inr (h', st')"
  shows "take (length h) h' = h"
proof (cases "render_imported currentPresets otherPresets h st")
  case (Inl e)
  with assms show ?thesis by (simp add: edit_imported_show_title_def)
next
  case (Inr r)
  show ?thesis
  proof (cases r)
    case None
    with assms Inr show ?thesis by (simp add: edit_imported_show_title_def)
  next
    case (Some hc)
    obtain h1 curPreset where hc: "hc = (h1, curPreset)" by (cases hc)
    from Inr Some hc obtain imported where
      cp: "copy_preset h imported [] = Inr (h1, curPreset)"
      by (auto simp: render_imported_def import_preset_def
          split: sum.splits option.splits list.splits if_splits)
    note ext = copy_preset_extends[OF cp]
    from assms Inr Some hc
    have run: "on_show_title_change uuid currentPresets h1 st curPreset checked = Inr (h', st')"
      by (simp add: edit_imported_show_title_def)
    let ?h2 = "h_set (h_set h1 (length h + 1) (js ''showTitle'') (HBool checked))
      curPreset (js ''labelSettings'') (HRef (length h + 1))"
    from run ext(4) have "updateCurrentPreset uuid currentPresets ?h2 st curPreset
        = Inr (h', st')"
      by (simp add: on_show_title_change_def setPrintSettings_def)
    from updateCurrentPreset_extends[OF this] have "take (length h1) h' = ?h2"
      by simp
    then have "take (length h) (take (length h1) h') = take (length h) ?h2"
      by simp
    then have "take (length h) h' = take (length h) ?h2"
      using ext(2) by (simp add: min_def)
    also have "\<dots> = take (length h) h1"
      using ext(3) by (simp add: take_h_set)
    finally show ?thesis using ext(1) by simp
  qed
qed




end
